theory Spec2Isabelle
  imports Main "HOL-Library.AList"
begin

section \<open>Data model\<close>

text \<open>
  The store module of the extension (\<^verbatim>\<open>src/unnamed/part_000\<close>) keeps named
  collections of remote rows in \<^verbatim>\<open>browser.storage.local\<close>, next to the cached
  signed-in user, the persisted auth session and the extension data bundle.

  Record ids are strings. A JavaScript object used as an id-keyed mapping is an
  association list in insertion order (the order \<^verbatim>\<open>Object.keys\<close> gives for keys
  that are not array indices, as the ids of the remote rows are): assigning to a
  key that exists keeps its position and replaces its value, assigning to a new
  key appends it. That is \<^const>\<open>AList.update\<close>.
\<close>

type_synonym ident = string

datatype cname = Users | Customers | Tags | TemplatesOwned | TemplatesShared | TemplatesEveryone

definition allCollections :: "cname list" where
  "allCollections = [Users, Customers, Tags, TemplatesOwned, TemplatesShared, TemplatesEveryone]"

text \<open>
  What the code throws: the string constant \<^verbatim>\<open>LOGGED_OUT_ERR\<close>, the
  \<^verbatim>\<open>TypeError\<close> of a property read on \<^verbatim>\<open>undefined\<close>, and the error object
  of a remote query (\<^verbatim>\<open>res.error\<close>), which is never the logged-out string.
\<close>

datatype err = LoggedOut | TypeError | RemoteError string

definition isLoggedOut :: "err \<Rightarrow> bool" where
  "isLoggedOut e = (e = LoggedOut)"

text \<open>
  A date column of a remote row is \<^verbatim>\<open>null\<close>, or an ISO string, or (after
  \<^verbatim>\<open>convertToNativeDates\<close>) a native \<^verbatim>\<open>Date\<close>. The model keeps the instant
  in milliseconds that the value denotes; the remote store's timestamps always
  denote one.
\<close>

datatype datefield = DNull | DIso int | DNative int

text \<open>
  One row type for all tables, with the columns the code reads:
  \<^verbatim>\<open>customers\<close> of a users row, \<^verbatim>\<open>subscription?.plan\<close> of a customers row,
  \<^verbatim>\<open>title\<close> of a tags row, and the template columns.
\<close>

record row =
  row_id :: ident
  customers :: "ident list"
  plan :: "string option"
  title :: string
  body :: string
  tags :: "string list"
  created_datetime :: datefield
  modified_datetime :: datefield
  deleted_datetime :: datefield

text \<open>A template as \<^verbatim>\<open>getTemplates\<close> returns it: the row and \<^verbatim>\<open>_body_plaintext\<close>.\<close>

record template = row +
  body_plaintext :: string

type_synonym collection = "(ident \<times> row) list"

text \<open>The user object \<^verbatim>\<open>{id, customer}\<close>; \<^verbatim>\<open>customer\<close> may be null or undefined.\<close>

record user =
  user_id :: ident
  user_customer :: "ident option"

text \<open>The value under the \<^verbatim>\<open>firebaseUser\<close> storage key: \<^verbatim>\<open>{}\<close> or \<^verbatim>\<open>{id, customer}\<close>.\<close>

datatype stored_user = EmptyUser | StoredUser ident "ident option"

record session =
  access_token :: string

text \<open>
  Modelled from the spec: the extension data bundle. \<^verbatim>\<open>./extension-data.js\<close> is not
  among the sources; the spec gives the bundle the cumulative \<^verbatim>\<open>words\<close> count,
  the last-sync timestamp (which may be absent) and the per-template last-used
  timestamps. A field that is absent is \<open>None\<close>.
\<close>

record ext =
  words :: "int option"
  lastSync :: "int option"
  templatesLastUsed :: "(ident \<times> int) list option"

definition empty_ext :: ext where
  "empty_ext = \<lparr>words = None, lastSync = None, templatesLastUsed = None\<rparr>"

text \<open>
  \<^verbatim>\<open>browser.storage.local\<close>: the keys the module uses. A key that is absent or
  holds \<^verbatim>\<open>null\<close> is \<open>None\<close> (the code only tests such values for truthiness).
\<close>

record local_storage =
  supabaseSession :: "session option"
  firebaseUser :: "stored_user option"
  collections :: "cname \<Rightarrow> collection option"
  extensionData :: ext

definition cleared_storage :: local_storage where
  "cleared_storage =
     \<lparr>supabaseSession = None, firebaseUser = None, collections = (\<lambda>c. None),
      extensionData = empty_ext\<rparr>"

text \<open>A remote query as the query builder is told it, and what it resolves to.\<close>

datatype filter =
    Eq string "string option"
  | Neq string "string option"
  | IsNull string
  | Contains string "string list"

record query =
  q_table :: string
  q_filters :: "filter list"

record query_result =
  q_error :: "string option"
  q_data :: "row list option"

text \<open>Calls the code starts without awaiting them.\<close>

datatype background = BgClearDataCache | BgSetActiveCustomer "ident option"

text \<open>
  The state the module reads and writes: the storage, the module variable
  \<^verbatim>\<open>_sessionLoaded\<close>, the user of the auth client's live session (what
  \<^verbatim>\<open>supabase.auth.getUser()\<close> resolves to), the badge, the events given to
  \<^verbatim>\<open>trigger\<close>, the remote queries issued, the calls started in the background,
  and the clock (\<^verbatim>\<open>Date.now()\<close>).
\<close>

record world =
  storage :: local_storage
  sessionLoaded :: bool
  authUser :: "ident option"
  badge :: bool
  triggered :: "string list"
  requests :: "query list"
  background_calls :: "background list"
  clock :: int

text \<open>
  The collaborators outside the module: the remote store, the auth client's
  \<^verbatim>\<open>setSession\<close> and \<^verbatim>\<open>signOut\<close> (each maps the live user before the call to
  the live user after it; either may fail without throwing), the HTML-to-text
  conversion, the fuzzy search, and the built-in default data. The storage
  also decides how far a cache clear that was started without being awaited
  gets while its caller goes on: \<open>clear_before_write\<close> is the number of steps
  of the clear that complete before the caller's next storage write does, and
  \<open>clear_before_settle\<close> the number that complete after that write and before
  the caller's promise settles.
\<close>

record env =
  run_query :: "query \<Rightarrow> query_result"
  setSession :: "session \<Rightarrow> ident option \<Rightarrow> ident option"
  signOut :: "ident option \<Rightarrow> ident option"
  htmlToText :: "string \<Rightarrow> string"
  fuzzySearch :: "template list \<Rightarrow> template list \<Rightarrow> string \<Rightarrow> template list"
  getDefaultTemplates :: "template list"
  defaultTags :: "row list"
  clear_before_write :: nat
  clear_before_settle :: nat

section \<open>Pure helpers\<close>

text \<open>
  \<^verbatim>\<open>convertToNativeDates\<close> (lines 55-64): each of the three date properties that
  is a string or a \<^verbatim>\<open>Date\<close> becomes a \<^verbatim>\<open>Date\<close> of the same instant.
\<close>

fun toNativeDate :: "datefield \<Rightarrow> datefield" where
  "toNativeDate DNull = DNull"
| "toNativeDate (DIso t) = DNative t"
| "toNativeDate (DNative t) = DNative t"

definition convertToNativeDates :: "row \<Rightarrow> row" where
  "convertToNativeDates obj =
     obj\<lparr>created_datetime := toNativeDate (created_datetime obj),
         modified_datetime := toNativeDate (modified_datetime obj),
         deleted_datetime := toNativeDate (deleted_datetime obj)\<rparr>"

text \<open>\<^verbatim>\<open>Object.assign(target, source)\<close> and \<^verbatim>\<open>Object.assign({}, ...sources)\<close>.\<close>

definition assign1 :: "('k \<times> 'v) list \<Rightarrow> ('k \<times> 'v) list \<Rightarrow> ('k \<times> 'v) list" where
  "assign1 target source = foldl (\<lambda>acc kv. AList.update (fst kv) (snd kv) acc) target source"

definition Object_assign :: "('k \<times> 'v) list list \<Rightarrow> ('k \<times> 'v) list" where
  "Object_assign sources = foldl assign1 [] sources"

text \<open>
  \<^verbatim>\<open>s.split(' ')\<close>: the pieces of \<open>s\<close> between single separator characters;
  the empty string has one (empty) piece.
\<close>

fun js_split :: "char \<Rightarrow> string \<Rightarrow> string list" where
  "js_split sep [] = [[]]"
| "js_split sep (c # cs) =
     (if c = sep then [] # js_split sep cs
      else (case js_split sep cs of
              [] \<Rightarrow> [[c]]
            | p # ps \<Rightarrow> (c # p) # ps))"

definition wordCount :: "string \<Rightarrow> int" where
  "wordCount plaintext = int (length (js_split CHR '' '' plaintext))"

text \<open>Truthiness of a string that may be null or undefined.\<close>

fun truthy :: "string option \<Rightarrow> bool" where
  "truthy None = False"
| "truthy (Some s) = (s \<noteq> [])"

text \<open>The property key a value is turned into by \<^verbatim>\<open>obj[value]\<close>.\<close>

fun prop_key :: "string option \<Rightarrow> string" where
  "prop_key None = ''undefined''"
| "prop_key (Some s) = s"

section \<open>Extension data\<close>

text \<open>
  Modelled from the spec: \<^verbatim>\<open>getExtensionData\<close> of \<^verbatim>\<open>./extension-data.js\<close>,
  which is not among the sources. It reads the bundle from the persistent store.
\<close>

definition getExtensionData :: "world \<Rightarrow> ext" where
  "getExtensionData w = extensionData (storage w)"

text \<open>
  Modelled from the spec: the update that \<^verbatim>\<open>setExtensionData\<close> makes to the
  bundle. The callers pass only the fields they change (\<^verbatim>\<open>{lastSync}\<close>,
  \<^verbatim>\<open>{words}\<close>) and the spec has the other fields persist, so the fields given
  replace the stored ones and the others are kept.
\<close>

definition merge_ext :: "ext \<Rightarrow> ext \<Rightarrow> ext" where
  "merge_ext old params =
     \<lparr>words = (case words params of None \<Rightarrow> words old | Some n \<Rightarrow> Some n),
      lastSync = (case lastSync params of None \<Rightarrow> lastSync old | Some t \<Rightarrow> Some t),
      templatesLastUsed =
        (case templatesLastUsed params of None \<Rightarrow> templatesLastUsed old | Some m \<Rightarrow> Some m)\<rparr>"

text \<open>
  Modelled from the spec: \<^verbatim>\<open>setExtensionData\<close> of \<^verbatim>\<open>./extension-data.js\<close>,
  which is not among the sources. It writes the updated bundle to the persistent
  store.
\<close>

definition setExtensionData :: "ext \<Rightarrow> world \<Rightarrow> world" where
  "setExtensionData params w =
     w\<lparr>storage := (storage w)\<lparr>extensionData := merge_ext (extensionData (storage w)) params\<rparr>\<rparr>"

section \<open>The awaited call chains\<close>

text \<open>
  Each function below is the source function run as one chain of awaits, in
  program order, with no other task of the event loop running in between: it
  maps the state before the call to the outcome (\<open>Inl\<close> what is thrown,
  \<open>Inr\<close> what is returned) and the state after it. A call the source starts
  without awaiting it is recorded in \<open>background_calls\<close>. The cache clear
  that \<^verbatim>\<open>getSignedInUser\<close> starts takes the steps the storage lets it take
  before the caller settles; the effects of the other background calls are not
  part of the caller's chain. The event-level sections further down split
  \<^verbatim>\<open>getCollection\<close>, \<^verbatim>\<open>searchTemplates\<close> and \<^verbatim>\<open>logout\<close> at their awaits.
\<close>

subsection \<open>clearDataCache (lines 66-78)\<close>

definition clearDataCache_read :: "world \<Rightarrow> int option" where
  "clearDataCache_read w = words (getExtensionData w)"

definition clearDataCache_clear :: "world \<Rightarrow> world" where
  "clearDataCache_clear w = w\<lparr>storage := cleared_storage\<rparr>"

definition clearDataCache_restore :: "int option \<Rightarrow> world \<Rightarrow> world" where
  "clearDataCache_restore n w = setExtensionData (empty_ext\<lparr>words := n\<rparr>) w"

definition clearDataCache :: "world \<Rightarrow> world" where
  "clearDataCache w =
     (let n = clearDataCache_read w
      in clearDataCache_restore n (clearDataCache_clear w))"

text \<open>
  A call of \<^verbatim>\<open>clearDataCache\<close> that is not awaited goes through its three
  steps while its caller goes on: the extension data has been read (with the
  words count it held), the store has been cleared, the words count has been
  written back.
\<close>

datatype clear_stage = ClearStarted | ClearRead "int option" | ClearCleared "int option" | ClearDone

fun clear_step :: "clear_stage \<times> world \<Rightarrow> clear_stage \<times> world" where
  "clear_step (ClearStarted, w) = (ClearRead (clearDataCache_read w), w)"
| "clear_step (ClearRead n, w) = (ClearCleared n, clearDataCache_clear w)"
| "clear_step (ClearCleared n, w) = (ClearDone, clearDataCache_restore n w)"
| "clear_step (ClearDone, w) = (ClearDone, w)"

fun clear_steps :: "nat \<Rightarrow> clear_stage \<times> world \<Rightarrow> clear_stage \<times> world" where
  "clear_steps 0 p = p"
| "clear_steps (Suc k) p = clear_steps k (clear_step p)"

subsection \<open>The remote queries (lines 80-127)\<close>

definition templatesOwnedQuery :: "user \<Rightarrow> query" where
  "templatesOwnedQuery u =
     \<lparr>q_table = ''templates'',
      q_filters = [Eq ''customer'' (user_customer u), IsNull ''deleted_datetime'',
                   Eq ''owner'' (Some (user_id u))]\<rparr>"

definition templatesSharedQuery :: "user \<Rightarrow> query" where
  "templatesSharedQuery u =
     \<lparr>q_table = ''templates'',
      q_filters = [Eq ''customer'' (user_customer u), IsNull ''deleted_datetime'',
                   Eq ''sharing'' (Some ''custom''), Contains ''shared_with'' [user_id u],
                   Neq ''owner'' (Some (user_id u))]\<rparr>"

definition templatesEveryoneQuery :: "user \<Rightarrow> query" where
  "templatesEveryoneQuery u =
     \<lparr>q_table = ''templates'',
      q_filters = [Eq ''customer'' (user_customer u), IsNull ''deleted_datetime'',
                   Eq ''sharing'' (Some ''everyone''), Neq ''owner'' (Some (user_id u))]\<rparr>"

fun getCollectionQuery :: "cname \<Rightarrow> user \<Rightarrow> query" where
  "getCollectionQuery TemplatesOwned u = templatesOwnedQuery u"
| "getCollectionQuery TemplatesShared u = templatesSharedQuery u"
| "getCollectionQuery TemplatesEveryone u = templatesEveryoneQuery u"
| "getCollectionQuery Users u =
     \<lparr>q_table = ''users'', q_filters = [Eq ''id'' (Some (user_id u))]\<rparr>"
| "getCollectionQuery Customers u =
     \<lparr>q_table = ''customers'', q_filters = [Contains ''members'' [user_id u]]\<rparr>"
| "getCollectionQuery Tags u =
     \<lparr>q_table = ''tags'', q_filters = [Eq ''customer'' (user_customer u)]\<rparr>"

subsection \<open>refreshLocalData and updateCache (lines 157-183)\<close>

fun cname_str :: "cname \<Rightarrow> string" where
  "cname_str Users = ''users''"
| "cname_str Customers = ''customers''"
| "cname_str Tags = ''tags''"
| "cname_str TemplatesOwned = ''templatesOwned''"
| "cname_str TemplatesShared = ''templatesShared''"
| "cname_str TemplatesEveryone = ''templatesEveryone''"

text \<open>The names that contain \<^verbatim>\<open>templates\<close> are the three template collections.\<close>

definition eventName :: "cname \<Rightarrow> string" where
  "eventName c =
     (if c \<in> {TemplatesOwned, TemplatesShared, TemplatesEveryone} then ''templates-updated''
      else cname_str c @ ''-updated'')"

text \<open>\<^verbatim>\<open>res.data || []\<close>, and the object \<^verbatim>\<open>refreshLocalData\<close> builds from the rows.\<close>

definition snapshot_docs :: "query_result \<Rightarrow> row list" where
  "snapshot_docs res = (case q_data res of None \<Rightarrow> [] | Some rows \<Rightarrow> rows)"

definition snapshot_data :: "row list \<Rightarrow> collection" where
  "snapshot_data docs = foldl (\<lambda>acc doc. AList.update (row_id doc) doc acc) [] docs"

text \<open>
  \<^verbatim>\<open>updateCache\<close> has two awaits: the storage write, after which the event is
  triggered and \<^verbatim>\<open>Date.now()\<close> is read, and the write of \<^verbatim>\<open>lastSync\<close>.
\<close>

definition updateCache_write :: "cname \<Rightarrow> collection \<Rightarrow> world \<Rightarrow> world" where
  "updateCache_write c d w =
     (let w1 = w\<lparr>storage := (storage w)\<lparr>collections := (collections (storage w))(c := Some d)\<rparr>\<rparr>
      in w1\<lparr>triggered := triggered w1 @ [eventName c]\<rparr>)"

definition updateCache_stamp :: "int \<Rightarrow> world \<Rightarrow> world" where
  "updateCache_stamp t w = setExtensionData (empty_ext\<lparr>lastSync := Some t\<rparr>) w"

definition updateCache :: "cname \<Rightarrow> collection \<Rightarrow> world \<Rightarrow> collection \<times> world" where
  "updateCache c d w =
     (let w1 = updateCache_write c d w
      in (d, updateCache_stamp (clock w1) w1))"

definition refreshLocalData :: "cname \<Rightarrow> row list \<Rightarrow> world \<Rightarrow> collection \<times> world" where
  "refreshLocalData c docs w = updateCache c (snapshot_data docs) w"

subsection \<open>getCollection (lines 129-155)\<close>

text \<open>
  In a chain that runs alone the in-flight map \<^verbatim>\<open>collectionRequestQueue\<close> holds
  nothing for the name when the call starts (the entry is set and cleared
  within one call), so the chain starts at the storage read. The map itself is
  part of the event-level model of \<^verbatim>\<open>getCollection\<close> below.
\<close>

definition getCollection :: "env \<Rightarrow> cname \<Rightarrow> user \<Rightarrow> world \<Rightarrow> (err + collection) \<times> world" where
  "getCollection e c u w =
     (case collections (storage w) c of
        Some cached \<Rightarrow> (Inr cached, w)
      | None \<Rightarrow>
          (let q = getCollectionQuery c u;
               w1 = w\<lparr>requests := requests w @ [q]\<rparr>;
               res = run_query e q
           in case q_error res of
                Some msg \<Rightarrow> (Inl (RemoteError msg), w1)
              | None \<Rightarrow>
                  (case refreshLocalData c (snapshot_docs res) w1 of
                     (d, w2) \<Rightarrow> (Inr d, w2))))"

text \<open>
  The part of \<^verbatim>\<open>getCollection\<close> after a cache miss (lines 144-153), run to its
  end: the query is issued and resolves, and on success the cache is written.
\<close>

definition getCollection_fetch :: "env \<Rightarrow> cname \<Rightarrow> user \<Rightarrow> world \<Rightarrow> (err + collection) \<times> world" where
  "getCollection_fetch e c u w =
     (let q = getCollectionQuery c u;
          w1 = w\<lparr>requests := requests w @ [q]\<rparr>;
          res = run_query e q
      in case q_error res of
           Some msg \<Rightarrow> (Inl (RemoteError msg), w1)
         | None \<Rightarrow>
             (case refreshLocalData c (snapshot_docs res) w1 of
                (d, w2) \<Rightarrow> (Inr d, w2)))"

text \<open>
  \<^verbatim>\<open>Promise.all\<close> over \<^verbatim>\<open>getCollection\<close> calls for the names of a list (lines
  203-208, 363). The calls are all started in the same tick, with nothing in
  flight: every call passes the test of the in-flight map and reads the store
  before any of the fetches has written to it, so what each call finds cached
  is decided on the state in which \<^verbatim>\<open>Promise.all\<close> starts, and two calls for
  one name that find nothing both issue the query. Every fetch runs to its end,
  whether or not another has failed. \<^verbatim>\<open>Promise.all\<close> fulfils with the results
  in the order of the names, or rejects with the failure that settles first;
  the fetches are taken to settle in the order in which they were issued. The
  state returned is the one in which every fetch has run to its end.
\<close>

fun promise_all :: "(err + 'a) list \<Rightarrow> err + 'a list" where
  "promise_all [] = Inr []"
| "promise_all (Inl x # rs) = Inl x"
| "promise_all (Inr v # rs) = (case promise_all rs of Inl x \<Rightarrow> Inl x | Inr vs \<Rightarrow> Inr (v # vs))"

fun settle_all ::
  "env \<Rightarrow> user \<Rightarrow> (cname \<times> collection option) list \<Rightarrow> world \<Rightarrow> (err + collection) list \<times> world" where
  "settle_all e u [] w = ([], w)"
| "settle_all e u ((c, Some cached) # reads) w =
     (case settle_all e u reads w of (rs, w') \<Rightarrow> (Inr cached # rs, w'))"
| "settle_all e u ((c, None) # reads) w =
     (case getCollection_fetch e c u w of
        (r, w1) \<Rightarrow> (case settle_all e u reads w1 of (rs, w') \<Rightarrow> (r # rs, w')))"

definition getCollections :: "env \<Rightarrow> user \<Rightarrow> cname list \<Rightarrow> world \<Rightarrow> (err + collection list) \<times> world" where
  "getCollections e u cs w =
     (case settle_all e u (map (\<lambda>c. (c, collections (storage w) c)) cs) w of
        (rs, w') \<Rightarrow> (promise_all rs, w'))"

text \<open>What each of the calls settles with, in the order of the names.\<close>

definition getCollections_settled :: "env \<Rightarrow> user \<Rightarrow> cname list \<Rightarrow> world \<Rightarrow> (err + collection) list" where
  "getCollections_settled e u cs w =
     fst (settle_all e u (map (\<lambda>c. (c, collections (storage w) c)) cs) w)"

subsection \<open>Session restore and the live user (lines 35-47, 270-275)\<close>

definition loadSession :: "env \<Rightarrow> world \<Rightarrow> world" where
  "loadSession e w =
     (if sessionLoaded w then w
      else
        (let w1 = (case supabaseSession (storage w) of
                     None \<Rightarrow> w
                   | Some stored \<Rightarrow>
                       if access_token stored \<noteq> []
                       then w\<lparr>authUser := setSession e stored (authUser w)\<rparr>
                       else w)
         in w1\<lparr>sessionLoaded := True\<rparr>))"

definition getFirebaseUser :: "env \<Rightarrow> world \<Rightarrow> ident option \<times> world" where
  "getFirebaseUser e w = (let w1 = loadSession e w in (authUser w1, w1))"

subsection \<open>setSignedInUser (lines 313-321)\<close>

definition setSignedInUser :: "stored_user \<Rightarrow> world \<Rightarrow> stored_user \<times> world" where
  "setSignedInUser v w = (v, w\<lparr>storage := (storage w)\<lparr>firebaseUser := Some v\<rparr>\<rparr>)"

subsection \<open>getActiveCustomer (lines 474-491)\<close>

text \<open>
  The users collection is fetched for \<^verbatim>\<open>{id: user.id}\<close>. Reading
  \<^verbatim>\<open>userData.customers\<close> throws when the user has no row.
\<close>

definition getActiveCustomer :: "env \<Rightarrow> user \<Rightarrow> world \<Rightarrow> (err + ident option) \<times> world" where
  "getActiveCustomer e u w =
     (case getCollection e Users \<lparr>user_id = user_id u, user_customer = None\<rparr> w of
        (Inl x, w1) \<Rightarrow> (Inl x, w1)
      | (Inr us, w1) \<Rightarrow>
          (case map_of us (user_id u) of
             None \<Rightarrow> (Inl TypeError, w1)
           | Some userData \<Rightarrow>
               (if (case user_customer u of
                      None \<Rightarrow> False
                    | Some cust \<Rightarrow> cust \<noteq> [] \<and> cust \<in> set (customers userData))
                then (Inr (user_customer u), w1)
                else (Inr (case customers userData of [] \<Rightarrow> None | c # cs \<Rightarrow> Some c), w1))))"

subsection \<open>getSignedInUser (lines 277-311)\<close>

text \<open>
  \<^verbatim>\<open>setActiveCustomer(customer)\<close> and \<^verbatim>\<open>clearDataCache()\<close> are started without
  being awaited. In the branch of the automatic logout (lines 302-307) the cache
  clear is started before the write of the empty user is awaited: the steps of
  the clear that the storage completes before that write, and then before the
  call settles, are applied to the store; the steps that are left complete
  after the call has settled.
\<close>

definition getSignedInUser :: "env \<Rightarrow> world \<Rightarrow> (err + user) \<times> world" where
  "getSignedInUser e w =
     (let stored = (case firebaseUser (storage w) of None \<Rightarrow> EmptyUser | Some v \<Rightarrow> v)
      in case getFirebaseUser e w of
           (Some fid, w1) \<Rightarrow>
             (case stored of
                EmptyUser \<Rightarrow> (Inl LoggedOut, w1)
              | StoredUser uid ucust \<Rightarrow>
                  if uid = fid then
                    (case getActiveCustomer e \<lparr>user_id = uid, user_customer = ucust\<rparr> w1 of
                       (Inl x, w2) \<Rightarrow> (Inl x, w2)
                     | (Inr customer, w2) \<Rightarrow>
                         (Inr \<lparr>user_id = uid, user_customer = customer\<rparr>,
                          if truthy ucust \<and> ucust \<noteq> customer
                          then w2\<lparr>background_calls :=
                                    background_calls w2 @ [BgSetActiveCustomer customer]\<rparr>
                          else w2))
                  else (Inl LoggedOut, w1))
         | (None, w1) \<Rightarrow>
             (case stored of
                EmptyUser \<Rightarrow> (Inl LoggedOut, w1)
              | StoredUser uid ucust \<Rightarrow>
                  (let w2 = w1\<lparr>badge := False\<rparr>;
                       w3 = w2\<lparr>background_calls := background_calls w2 @ [BgClearDataCache]\<rparr>;
                       p4 = clear_steps (clear_before_write e) (ClearStarted, w3);
                       w5 = snd (setSignedInUser EmptyUser (snd p4));
                       w6 = w5\<lparr>triggered := triggered w5 @ [''logout'']\<rparr>;
                       p7 = clear_steps (clear_before_settle e) (fst p4, w6)
                   in (Inl LoggedOut, snd p7))))"

subsection \<open>isFree (lines 323-329)\<close>

definition isFree :: "env \<Rightarrow> user \<Rightarrow> world \<Rightarrow> (err + bool) \<times> world" where
  "isFree e u w =
     (case getCollection e Customers u w of
        (Inl x, w1) \<Rightarrow> (Inl x, w1)
      | (Inr cs, w1) \<Rightarrow>
          (case map_of cs (prop_key (user_customer u)) of
             None \<Rightarrow> (Inl TypeError, w1)
           | Some customer \<Rightarrow> (Inr (plan customer = Some ''free''), w1)))"

subsection \<open>getTemplates (lines 331-395)\<close>

definition templatesFreeLimit :: nat where
  "templatesFreeLimit = 30"

text \<open>The array element built from the entry \<open>(i, t)\<close> of the merged mapping.\<close>

definition toTemplate :: "env \<Rightarrow> ident \<Rightarrow> row \<Rightarrow> template" where
  "toTemplate e i t =
     row.extend ((convertToNativeDates t)\<lparr>row_id := i\<rparr>) (template.fields (htmlToText e (body t)))"

text \<open>
  \<^verbatim>\<open>new Date(a.created_datetime || 0)\<close> as an instant, and the comparator of the
  sort. \<^verbatim>\<open>Array.prototype.sort\<close> is stable; with a comparator it places \<open>a\<close>
  before \<open>b\<close> unless the comparator is positive.
\<close>

definition createdTime :: "template \<Rightarrow> int" where
  "createdTime a = (case created_datetime a of DNull \<Rightarrow> 0 | DIso t \<Rightarrow> t | DNative t \<Rightarrow> t)"

definition compareCreated :: "template \<Rightarrow> template \<Rightarrow> int" where
  "compareCreated a b = createdTime a - createdTime b"

fun insert_by :: "('a \<Rightarrow> 'a \<Rightarrow> int) \<Rightarrow> 'a \<Rightarrow> 'a list \<Rightarrow> 'a list" where
  "insert_by cmp x [] = [x]"
| "insert_by cmp x (y # ys) = (if cmp x y \<le> 0 then x # y # ys else y # insert_by cmp x ys)"

definition js_sort :: "('a \<Rightarrow> 'a \<Rightarrow> int) \<Rightarrow> 'a list \<Rightarrow> 'a list" where
  "js_sort cmp xs = foldr (insert_by cmp) xs []"

definition orDefault :: "'a \<Rightarrow> (err + 'a) \<Rightarrow> err + 'a" where
  "orDefault d r =
     (case r of Inl x \<Rightarrow> if isLoggedOut x then Inr d else Inl x | Inr v \<Rightarrow> Inr v)"

text \<open>
  The three steps after the collections have resolved: merge (line 366), map to
  array elements (lines 369-375), and for a free customer sort and slice
  (lines 378-385).
\<close>

definition mergeTemplates :: "env \<Rightarrow> bool \<Rightarrow> collection list \<Rightarrow> template list" where
  "mergeTemplates e freeCustomer res =
     (let templates = map (\<lambda>(i, t). toTemplate e i t) (Object_assign res)
      in if freeCustomer then take templatesFreeLimit (js_sort compareCreated templates)
         else templates)"

definition getTemplates :: "env \<Rightarrow> world \<Rightarrow> (err + template list) \<times> world" where
  "getTemplates e w =
     (let (r, w') =
        (case getSignedInUser e w of
           (Inl x, w1) \<Rightarrow> (Inl x, w1)
         | (Inr u, w1) \<Rightarrow>
             (case isFree e u w1 of
                (Inl x, w2) \<Rightarrow> (Inl x, w2)
              | (Inr freeCustomer, w2) \<Rightarrow>
                  (case getCollections e u
                          (TemplatesOwned #
                             (if \<not> freeCustomer then [TemplatesShared, TemplatesEveryone] else [])) w2 of
                     (Inl x, w3) \<Rightarrow> (Inl x, w3)
                   | (Inr res, w3) \<Rightarrow> (Inr (mergeTemplates e freeCustomer res), w3))))
      in (orDefault (getDefaultTemplates e) r, w'))"

subsection \<open>refetchCollections and autosync (lines 185-229)\<close>

text \<open>\<^verbatim>\<open>browser.storage.local.set(cache)\<close> with \<^verbatim>\<open>cache[c] = null\<close> for each name.\<close>

definition invalidate :: "cname list \<Rightarrow> world \<Rightarrow> world" where
  "invalidate cs w =
     w\<lparr>storage := (storage w)\<lparr>collections :=
          (\<lambda>c. if c \<in> set cs then None else collections (storage w) c)\<rparr>\<rparr>"

text \<open>
  The \<^verbatim>\<open>try\<close> covers the two awaits; the promise of \<^verbatim>\<open>Promise.all\<close> is returned
  without being awaited, so its rejection is not filtered by the \<^verbatim>\<open>catch\<close>.
  The result is \<open>None\<close> where the source returns \<^verbatim>\<open>undefined\<close>.
\<close>

definition collectionsToClear :: "cname list \<Rightarrow> cname list" where
  "collectionsToClear cs = (if cs \<noteq> [] then cs else allCollections)"

definition collectionsToRefetch :: "bool \<Rightarrow> cname list \<Rightarrow> cname list" where
  "collectionsToRefetch free toClear =
     (if free then filter (\<lambda>c. c \<notin> set [TemplatesShared, TemplatesEveryone]) toClear
      else toClear)"

definition refetchCollections ::
  "env \<Rightarrow> cname list \<Rightarrow> world \<Rightarrow> (err + collection list option) \<times> world" where
  "refetchCollections e cs w =
     (case getSignedInUser e (invalidate (collectionsToClear cs) w) of
        (Inl x, w1) \<Rightarrow> (if isLoggedOut x then Inr None else Inl x, w1)
      | (Inr u, w1) \<Rightarrow>
          (case isFree e u w1 of
             (Inl x, w2) \<Rightarrow> (if isLoggedOut x then Inr None else Inl x, w2)
           | (Inr free, w2) \<Rightarrow>
               (case getCollections e u (collectionsToRefetch free (collectionsToClear cs)) w2 of
                  (Inl x, w3) \<Rightarrow> (Inl x, w3)
                | (Inr ds, w3) \<Rightarrow> (Inr (Some ds), w3))))"

definition defaultSyncTimeout :: int where
  "defaultSyncTimeout = 3 * 60 * 60 * 1000"

text \<open>
  \<^verbatim>\<open>new Date(data.lastSync)\<close> is an invalid date when \<^verbatim>\<open>lastSync\<close> is
  undefined; a difference with an invalid date is \<^verbatim>\<open>NaN\<close> (\<open>None\<close>), and
  \<^verbatim>\<open>NaN > timeout\<close> is false.
\<close>

definition js_Date :: "int option \<Rightarrow> int option" where
  "js_Date v = v"

definition js_minus :: "int \<Rightarrow> int option \<Rightarrow> int option" where
  "js_minus a b = (case b of None \<Rightarrow> None | Some t \<Rightarrow> Some (a - t))"

definition js_gt :: "int option \<Rightarrow> int \<Rightarrow> bool" where
  "js_gt a b = (case a of None \<Rightarrow> False | Some n \<Rightarrow> n > b)"

definition autosync :: "env \<Rightarrow> int \<Rightarrow> world \<Rightarrow> (err + collection list option) \<times> world" where
  "autosync e timeout w =
     (let data = getExtensionData w;
          lastSyncDate = js_Date (lastSync data)
      in if js_gt (js_minus (clock w) lastSyncDate) timeout
         then refetchCollections e [] w
         else (Inr None, w))"

subsection \<open>logout (lines 448-457)\<close>

text \<open>
  \<^verbatim>\<open>logout_begin\<close> runs to the last await (the write of the session key is
  issued); \<^verbatim>\<open>clearDataCache()\<close> has been started and is not awaited.
  \<^verbatim>\<open>logout_finish\<close> is the completion of that write, after which the call
  returns \<^verbatim>\<open>true\<close>.
\<close>

definition logout_begin :: "env \<Rightarrow> world \<Rightarrow> world" where
  "logout_begin e w =
     (let w1 = w\<lparr>authUser := signOut e (authUser w)\<rparr>;
          w2 = snd (setSignedInUser EmptyUser w1);
          w3 = w2\<lparr>badge := False\<rparr>;
          w4 = w3\<lparr>background_calls := background_calls w3 @ [BgClearDataCache]\<rparr>
      in w4\<lparr>triggered := triggered w4 @ [''logout'']\<rparr>)"

definition logout_finish :: "world \<Rightarrow> world" where
  "logout_finish w = w\<lparr>storage := (storage w)\<lparr>supabaseSession := None\<rparr>\<rparr>"

definition logout :: "env \<Rightarrow> world \<Rightarrow> bool \<times> world" where
  "logout e w = (True, logout_finish (logout_begin e w))"

subsection \<open>updateTemplateStats (lines 510-525)\<close>

text \<open>
  The last-used entry is the ISO string of the current instant; the model keeps
  the instant. \<^verbatim>\<open>data.words + wordCount\<close> is not a number when \<^verbatim>\<open>words\<close> is
  absent.
\<close>

definition updateTemplateStats :: "ident \<Rightarrow> string \<Rightarrow> world \<Rightarrow> world" where
  "updateTemplateStats i plaintext w =
     (let data = getExtensionData w;
          lastuseCache = (case templatesLastUsed data of None \<Rightarrow> [] | Some m \<Rightarrow> m);
          lastuseCache' = AList.update i (clock w) lastuseCache;
          n = wordCount plaintext;
          total = (case words data of None \<Rightarrow> None | Some k \<Rightarrow> Some (k + n))
      in setExtensionData
           \<lparr>words = total, lastSync = None, templatesLastUsed = Some lastuseCache'\<rparr> w)"

subsection \<open>getTags, parseTags, getSearchList (lines 551-589)\<close>

text \<open>
  \<^verbatim>\<open>Object.assign({id: id}, tags[id])\<close>: the row's own \<^verbatim>\<open>id\<close> is assigned last, so
  the element is the row.
\<close>

definition getTags :: "env \<Rightarrow> world \<Rightarrow> (err + row list) \<times> world" where
  "getTags e w =
     (let (r, w') =
        (case getSignedInUser e w of
           (Inl x, w1) \<Rightarrow> (Inl x, w1)
         | (Inr u, w1) \<Rightarrow>
             (case getCollection e Tags u w1 of
                (Inl x, w2) \<Rightarrow> (Inl x, w2)
              | (Inr ts, w2) \<Rightarrow> (Inr (map snd ts), w2)))
      in (orDefault (defaultTags e) r, w'))"

definition parseTags :: "string list \<Rightarrow> row list \<Rightarrow> row list" where
  "parseTags tagIds allTags =
     List.map_filter (\<lambda>tagId. find (\<lambda>t. row_id t = tagId) allTags) tagIds"

definition getSearchList :: "template list \<Rightarrow> row list \<Rightarrow> template list" where
  "getSearchList templates allTags =
     map (\<lambda>t. t\<lparr>body := body_plaintext t, tags := map title (parseTags (tags t) allTags)\<rparr>)
       templates"

section \<open>searchTemplates at its awaits (lines 591-615)\<close>

text \<open>
  A call of \<^verbatim>\<open>searchTemplates(query)\<close> first stores the query in the module
  variable \<^verbatim>\<open>lastSearchQuery\<close> and starts the two fetches; its \<^verbatim>\<open>then\<close> callback
  runs when both have resolved, with other calls possibly issued in between.
  The state is the module variable, the query of every call issued so far (a
  call is named by its position), what each call has resolved to, and the
  queries \<^verbatim>\<open>fuzzySearch\<close> has been invoked with. The event that the fetches
  of a call have resolved carries what \<^verbatim>\<open>getTemplates\<close> and \<^verbatim>\<open>getTags\<close>
  resolved to; when one of them rejects, the callback does not run.
\<close>

record search_result =
  sr_query :: string
  sr_results :: "template list"

record search_state =
  lastSearchQuery :: string
  issued :: "string list"
  resolved :: "(nat \<times> search_result) list"
  ranked :: "string list"

definition search_init :: search_state where
  "search_init = \<lparr>lastSearchQuery = [], issued = [], resolved = [], ranked = []\<rparr>"

datatype search_event =
    Search string
  | FetchesResolved nat "template list" "row list"

text \<open>Line 593: the synchronous part of a call.\<close>

definition searchTemplates_call :: "string \<Rightarrow> search_state \<Rightarrow> search_state" where
  "searchTemplates_call q s = s\<lparr>lastSearchQuery := q, issued := issued s @ [q]\<rparr>"

text \<open>Lines 599-614: the callback of call \<open>k\<close>, whose query is \<open>q\<close>.\<close>

definition searchTemplates_then ::
  "env \<Rightarrow> nat \<Rightarrow> string \<Rightarrow> template list \<Rightarrow> row list \<Rightarrow> search_state \<Rightarrow> search_state" where
  "searchTemplates_then e k q templates allTags s =
     (if q \<noteq> lastSearchQuery s
      then s\<lparr>resolved := resolved s @ [(k, \<lparr>sr_query = ''_SEARCH_CANCELED'', sr_results = []\<rparr>)]\<rparr>
      else
        (let templateSearchList = getSearchList templates allTags
         in s\<lparr>resolved := resolved s @
                  [(k, \<lparr>sr_query = q, sr_results = fuzzySearch e templates templateSearchList q\<rparr>)],
               ranked := ranked s @ [q]\<rparr>))"

text \<open>
  One event of the loop. The callback of a call runs once, and only for a call
  that has been issued.
\<close>

fun search_step :: "env \<Rightarrow> search_state \<Rightarrow> search_event \<Rightarrow> search_state" where
  "search_step e s (Search q) = searchTemplates_call q s"
| "search_step e s (FetchesResolved k templates allTags) =
     (if k < length (issued s) \<and> map_of (resolved s) k = None
      then searchTemplates_then e k (issued s ! k) templates allTags s
      else s)"

definition search_run :: "env \<Rightarrow> search_event list \<Rightarrow> search_state \<Rightarrow> search_state" where
  "search_run e evs s = foldl (search_step e) s evs"

text \<open>
  The two results of a call (lines 603-606 and 610-613), and predicates on
  events: an event that is a call, an event that is the callback of call \<open>k\<close>,
  a list of events with neither, and a list of events with no call for the
  query \<open>q\<close> and no callback of call \<open>k\<close>. In a state reached from
  \<open>search_init\<close> only calls that were issued have resolved.
\<close>

definition canceled :: search_result where
  "canceled = \<lparr>sr_query = ''_SEARCH_CANCELED'', sr_results = []\<rparr>"

definition ranking :: "env \<Rightarrow> string \<Rightarrow> template list \<Rightarrow> row list \<Rightarrow> search_result" where
  "ranking e q ts tgs = \<lparr>sr_query = q, sr_results = fuzzySearch e ts (getSearchList ts tgs) q\<rparr>"


fun resolves :: "nat \<Rightarrow> search_event \<Rightarrow> bool" where
  "resolves k (Search q) = False"
| "resolves k (FetchesResolved j ts tgs) = (j = k)"


definition not_reissued :: "string \<Rightarrow> nat \<Rightarrow> search_event list \<Rightarrow> bool" where
  "not_reissued q k evs = list_all (\<lambda>ev. ev \<noteq> Search q \<and> \<not> resolves k ev) evs"

definition search_ok :: "search_state \<Rightarrow> bool" where
  "search_ok s = list_all (\<lambda>p. fst p < length (issued s)) (resolved s)"

section \<open>getCollection at its awaits (lines 129-183)\<close>

text \<open>
  The state of the event loop around \<^verbatim>\<open>getCollection\<close>: the world, the module
  map \<^verbatim>\<open>collectionRequestQueue\<close> (the promise of the fetch in flight for a name,
  named by its position in \<open>fetches\<close>), the calls made so far and the fetch
  promises created so far.

  A call either waits for its storage read, or has resolved with the cached
  value, or resolves as a fetch promise does (because it was handed the promise
  found in the map, or because its own callback created the promise).

  A fetch promise waits for the remote query, then for the storage write of
  \<^verbatim>\<open>updateCache\<close>, then for the write of \<^verbatim>\<open>lastSync\<close>, and then is settled.
\<close>

datatype call_state =
    AwaitingStorage cname user
  | CacheHit collection
  | Follows nat

datatype fetch_state =
    QueryInFlight
  | CacheWriteInFlight collection
  | StampInFlight collection int
  | Settled "err + collection"

record loop_state =
  the_world :: world
  collectionRequestQueue :: "cname \<Rightarrow> nat option"
  calls :: "call_state list"
  fetches :: "(cname \<times> fetch_state) list"

datatype loop_event =
    Call cname user
  | StorageRead nat
  | QueryResolved nat query_result
  | CacheWritten nat
  | StampWritten nat

text \<open>Lines 131-138: the synchronous part of a call.\<close>

definition getCollection_call :: "cname \<Rightarrow> user \<Rightarrow> loop_state \<Rightarrow> loop_state" where
  "getCollection_call c u s =
     (case collectionRequestQueue s c of
        Some f \<Rightarrow> s\<lparr>calls := calls s @ [Follows f]\<rparr>
      | None \<Rightarrow> s\<lparr>calls := calls s @ [AwaitingStorage c u]\<rparr>)"

text \<open>Lines 139-154: the callback of the storage read of call \<open>k\<close>.\<close>

definition getCollection_read :: "nat \<Rightarrow> cname \<Rightarrow> user \<Rightarrow> loop_state \<Rightarrow> loop_state" where
  "getCollection_read k c u s =
     (case collections (storage (the_world s)) c of
        Some cached \<Rightarrow> s\<lparr>calls := (calls s)[k := CacheHit cached]\<rparr>
      | None \<Rightarrow>
          (let q = getCollectionQuery c u;
               f = length (fetches s)
           in s\<lparr>the_world := (the_world s)\<lparr>requests := requests (the_world s) @ [q]\<rparr>,
                 fetches := fetches s @ [(c, QueryInFlight)],
                 collectionRequestQueue := (collectionRequestQueue s)(c := Some f),
                 calls := (calls s)[k := Follows f]\<rparr>))"

text \<open>Lines 145-150: the callback of the remote query of fetch \<open>f\<close>.\<close>

definition getCollection_resolved :: "nat \<Rightarrow> cname \<Rightarrow> query_result \<Rightarrow> loop_state \<Rightarrow> loop_state" where
  "getCollection_resolved f c res s =
     (let s1 = s\<lparr>collectionRequestQueue := (collectionRequestQueue s)(c := None)\<rparr>
      in case q_error res of
           Some msg \<Rightarrow> s1\<lparr>fetches := (fetches s1)[f := (c, Settled (Inl (RemoteError msg)))]\<rparr>
         | None \<Rightarrow>
             s1\<lparr>fetches :=
                  (fetches s1)[f := (c, CacheWriteInFlight (snapshot_data (snapshot_docs res)))]\<rparr>)"

text \<open>Lines 171-180: the storage write of \<^verbatim>\<open>updateCache\<close> has completed.\<close>

definition getCollection_written :: "nat \<Rightarrow> cname \<Rightarrow> collection \<Rightarrow> loop_state \<Rightarrow> loop_state" where
  "getCollection_written f c d s =
     (let w1 = updateCache_write c d (the_world s)
      in s\<lparr>the_world := w1, fetches := (fetches s)[f := (c, StampInFlight d (clock w1))]\<rparr>)"

text \<open>Lines 178-182: the write of \<^verbatim>\<open>lastSync\<close> has completed; the promise resolves.\<close>

definition getCollection_stamped :: "nat \<Rightarrow> cname \<Rightarrow> collection \<Rightarrow> int \<Rightarrow> loop_state \<Rightarrow> loop_state" where
  "getCollection_stamped f c d t s =
     s\<lparr>the_world := updateCache_stamp t (the_world s),
       fetches := (fetches s)[f := (c, Settled (Inr d))]\<rparr>"

text \<open>One event of the loop; an event that is not due leaves the state as it is.\<close>

fun loop_step :: "loop_state \<Rightarrow> loop_event \<Rightarrow> loop_state" where
  "loop_step s (Call c u) = getCollection_call c u s"
| "loop_step s (StorageRead k) =
     (if k < length (calls s) then
        (case calls s ! k of
           AwaitingStorage c u \<Rightarrow> getCollection_read k c u s
         | CacheHit d \<Rightarrow> s
         | Follows f \<Rightarrow> s)
      else s)"
| "loop_step s (QueryResolved f res) =
     (if f < length (fetches s) then
        (case fetches s ! f of
           (c, QueryInFlight) \<Rightarrow> getCollection_resolved f c res s
         | (c, CacheWriteInFlight d) \<Rightarrow> s
         | (c, StampInFlight d t) \<Rightarrow> s
         | (c, Settled r) \<Rightarrow> s)
      else s)"
| "loop_step s (CacheWritten f) =
     (if f < length (fetches s) then
        (case fetches s ! f of
           (c, CacheWriteInFlight d) \<Rightarrow> getCollection_written f c d s
         | (c, QueryInFlight) \<Rightarrow> s
         | (c, StampInFlight d t) \<Rightarrow> s
         | (c, Settled r) \<Rightarrow> s)
      else s)"
| "loop_step s (StampWritten f) =
     (if f < length (fetches s) then
        (case fetches s ! f of
           (c, StampInFlight d t) \<Rightarrow> getCollection_stamped f c d t s
         | (c, QueryInFlight) \<Rightarrow> s
         | (c, CacheWriteInFlight d) \<Rightarrow> s
         | (c, Settled r) \<Rightarrow> s)
      else s)"

definition loop_run :: "loop_event list \<Rightarrow> loop_state \<Rightarrow> loop_state" where
  "loop_run evs s = foldl loop_step s evs"

text \<open>A state with no call made and nothing in flight.\<close>

definition idle :: "world \<Rightarrow> loop_state" where
  "idle w = \<lparr>the_world = w, collectionRequestQueue = (\<lambda>c. None), calls = [], fetches = []\<rparr>"

text \<open>What the caller of call \<open>k\<close> has received, if its promise is settled.\<close>

definition call_result :: "loop_state \<Rightarrow> nat \<Rightarrow> (err + collection) option" where
  "call_result s k =
     (if k < length (calls s) then
        (case calls s ! k of
           AwaitingStorage c u \<Rightarrow> None
         | CacheHit d \<Rightarrow> Some (Inr d)
         | Follows f \<Rightarrow>
             (if f < length (fetches s) then
                (case snd (fetches s ! f) of
                   Settled r \<Rightarrow> Some r
                 | QueryInFlight \<Rightarrow> None
                 | CacheWriteInFlight d \<Rightarrow> None
                 | StampInFlight d t \<Rightarrow> None)
              else None))
      else None)"

section \<open>logout and the cache clear it starts (lines 66-78, 448-457)\<close>

text \<open>
  After \<^verbatim>\<open>logout_begin\<close> two tasks are in flight: the rest of \<^verbatim>\<open>logout\<close> (one
  step) and the \<^verbatim>\<open>clearDataCache\<close> call that was not awaited (three steps: the
  read of the extension data, the clear, the write of \<^verbatim>\<open>words\<close>). A schedule
  says which task takes the next step. The write of the session key that the
  subscription to the auth client's state changes starts (lines 49-52) touches
  that key only and is left out.
\<close>

record race_state =
  race_world :: world
  clear_stage :: clear_stage
  logout_returned :: bool

datatype task = LogoutTask | ClearTask

fun race_step :: "race_state \<Rightarrow> task \<Rightarrow> race_state" where
  "race_step r LogoutTask =
     (if logout_returned r then r
      else r\<lparr>race_world := logout_finish (race_world r), logout_returned := True\<rparr>)"
| "race_step r ClearTask =
     (case clear_stage r of
        ClearStarted \<Rightarrow> r\<lparr>clear_stage := ClearRead (clearDataCache_read (race_world r))\<rparr>
      | ClearRead n \<Rightarrow>
          r\<lparr>race_world := clearDataCache_clear (race_world r), clear_stage := ClearCleared n\<rparr>
      | ClearCleared n \<Rightarrow>
          r\<lparr>race_world := clearDataCache_restore n (race_world r), clear_stage := ClearDone\<rparr>
      | ClearDone \<Rightarrow> r)"

definition race_run :: "task list \<Rightarrow> race_state \<Rightarrow> race_state" where
  "race_run sched r = foldl race_step r sched"

definition logout_started :: "env \<Rightarrow> world \<Rightarrow> race_state" where
  "logout_started e w =
     \<lparr>race_world = logout_begin e w, clear_stage = ClearStarted, logout_returned = False\<rparr>"

text \<open>
  What holds of the two tasks at every point of a schedule, for the words count
  \<open>n0\<close> read before \<^verbatim>\<open>logout\<close>: no user is stored, and the cache clear has
  the count in hand or in the store.
\<close>

definition race_inv :: "int option \<Rightarrow> race_state \<Rightarrow> bool" where
  "race_inv n0 r =
     ((firebaseUser (storage (race_world r)) = None
        \<or> firebaseUser (storage (race_world r)) = Some EmptyUser)
      \<and> (case clear_stage r of
            ClearStarted \<Rightarrow> words (extensionData (storage (race_world r))) = n0
          | ClearRead n \<Rightarrow> n = n0
          | ClearCleared n \<Rightarrow>
              n = n0 \<and> collections (storage (race_world r)) = (\<lambda>c. None)
              \<and> words (extensionData (storage (race_world r))) = None
          | ClearDone \<Rightarrow>
              words (extensionData (storage (race_world r))) = n0
              \<and> collections (storage (race_world r)) = (\<lambda>c. None)))"

section \<open>Example data\<close>

definition row0 :: row where
  "row0 =
     \<lparr>row_id = [], customers = [], plan = None, title = [], body = [], tags = [],
      created_datetime = DNull, modified_datetime = DNull, deleted_datetime = DNull\<rparr>"

definition env0 :: env where
  "env0 =
     \<lparr>run_query = (\<lambda>q. \<lparr>q_error = None, q_data = Some []\<rparr>),
      setSession = (\<lambda>s a. a),
      signOut = (\<lambda>a. None),
      htmlToText = (\<lambda>s. s),
      fuzzySearch = (\<lambda>ts l q. ts),
      getDefaultTemplates = [],
      defaultTags = [],
      clear_before_write = 0,
      clear_before_settle = 0\<rparr>"

definition world0 :: world where
  "world0 =
     \<lparr>storage = cleared_storage, sessionLoaded = False, authUser = None, badge = False,
      triggered = [], requests = [], background_calls = [], clock = 0\<rparr>"

definition world_cached :: world where
  "world_cached =
     world0\<lparr>storage := cleared_storage\<lparr>collections := (\<lambda>c. None)(Tags \<mapsto> [(''g1'', row0)])\<rparr>\<rparr>"

definition cache1 :: "cname \<Rightarrow> collection option" where
  "cache1 =
     (\<lambda>c. None)
       (Users \<mapsto> [(''u1'', row0\<lparr>row_id := ''u1'', customers := [''c1'']\<rparr>)],
        Customers \<mapsto> [(''c1'', row0\<lparr>row_id := ''c1'', plan := Some ''free''\<rparr>)],
        Tags \<mapsto> [(''g1'', row0\<lparr>row_id := ''g1''\<rparr>)],
        TemplatesOwned \<mapsto>
          [(''t1'', row0\<lparr>row_id := ''t1'', created_datetime := DIso 20\<rparr>),
           (''t2'', row0\<lparr>row_id := ''t2'', created_datetime := DIso 10\<rparr>)],
        TemplatesShared \<mapsto> [(''t3'', row0\<lparr>row_id := ''t3''\<rparr>)])"

definition world_signed_in :: world where
  "world_signed_in =
     world0\<lparr>storage :=
              \<lparr>supabaseSession = None, firebaseUser = Some (StoredUser ''u1'' (Some ''c1'')),
               collections = cache1, extensionData = empty_ext\<lparr>words := Some 5\<rparr>\<rparr>,
            sessionLoaded := True, authUser := Some ''u1''\<rparr>"

definition world_no_user_row :: world where
  "world_no_user_row =
     world_signed_in\<lparr>storage := (storage world_signed_in)\<lparr>collections := cache1(Users \<mapsto> [])\<rparr>\<rparr>"

definition world_no_customer_row :: world where
  "world_no_customer_row =
     world_signed_in\<lparr>storage := (storage world_signed_in)\<lparr>collections := cache1(Customers \<mapsto> [])\<rparr>\<rparr>"

definition world_signed_out :: world where
  "world_signed_out = world0\<lparr>storage := cleared_storage\<lparr>collections := cache1\<rparr>\<rparr>"

definition world_remote_logout :: world where
  "world_remote_logout = world_signed_in\<lparr>authUser := None\<rparr>"

definition env_clear_first :: env where
  "env_clear_first = env0\<lparr>clear_before_write := 2\<rparr>"

definition env_offline :: env where
  "env_offline = env0\<lparr>run_query := (\<lambda>q. \<lparr>q_error = Some ''offline'', q_data = None\<rparr>)\<rparr>"

definition user1 :: user where
  "user1 = \<lparr>user_id = ''u1'', user_customer = Some ''c1''\<rparr>"

definition owned1 :: collection where
  "owned1 = [(''t1'', row0\<lparr>row_id := ''t1'', created_datetime := DIso 20\<rparr>),
           (''t2'', row0\<lparr>row_id := ''t2'', created_datetime := DIso 10\<rparr>)]"

definition res_a :: query_result where
  "res_a = \<lparr>q_error = None, q_data = Some [row0\<lparr>row_id := ''g1'', title := ''old''\<rparr>]\<rparr>"

definition res_b :: query_result where
  "res_b = \<lparr>q_error = None, q_data = Some [row0\<lparr>row_id := ''g1'', title := ''new''\<rparr>]\<rparr>"

definition res_offline :: query_result where
  "res_offline = \<lparr>q_error = Some ''offline'', q_data = None\<rparr>"

definition one_fetch :: loop_state where
  "one_fetch = loop_run [Call Tags user1, StorageRead 0] (idle world0)"

section \<open>Merging objects\<close>

lemma map_of_assign1:
  "distinct (map fst src) \<Longrightarrow> map_of (assign1 tgt src) = map_of tgt ++ map_of src"
proof (induction src arbitrary: tgt)
  case Nil
  then show ?case by (simp add: assign1_def)
next
  case (Cons kv src)
  obtain k v where kv: "kv = (k, v)" by (cases kv)
  have step: "assign1 tgt (kv # src) = assign1 (AList.update k v tgt) src"
    by (simp add: assign1_def kv)
  have ih: "map_of (assign1 (AList.update k v tgt) src)
      = map_of (AList.update k v tgt) ++ map_of src"
    using Cons by simp
  have notin: "k \<notin> dom (map_of src)"
    using Cons.prems by (simp add: dom_map_of_conv_image_fst kv)
  have "map_of (AList.update k v tgt) ++ map_of src = ((map_of tgt)(k \<mapsto> v)) ++ map_of src"
    by (simp only: update_conv')
  also have "\<dots> = (map_of tgt ++ map_of src)(k \<mapsto> v)"
    using notin by (rule map_add_upd_left)
  also have "\<dots> = map_of tgt ++ (map_of src)(k \<mapsto> v)"
    by (simp only: map_add_upd)
  also have "\<dots> = map_of tgt ++ map_of (kv # src)"
    unfolding kv by simp
  finally have "map_of (AList.update k v tgt) ++ map_of src = map_of tgt ++ map_of (kv # src)" .
  then show ?case by (simp only: step ih)
qed

lemma distinct_assign1: "distinct (map fst tgt) \<Longrightarrow> distinct (map fst (assign1 tgt src))"
  unfolding assign1_def
  by (induction src arbitrary: tgt) (simp_all add: AList.distinct_update)

lemma Object_assign3:
  "Object_assign [a, b, c] = assign1 (assign1 (assign1 [] a) b) c"
  by (simp add: Object_assign_def)

lemma distinct_Object_assign: "distinct (map fst (Object_assign srcs))"
proof -
  have "distinct (map fst tgt) \<Longrightarrow> distinct (map fst (foldl assign1 tgt srcs))" for tgt :: "('a \<times> 'b) list"
    by (induction srcs arbitrary: tgt) (simp_all add: distinct_assign1)
  then show ?thesis by (simp add: Object_assign_def)
qed

text \<open>
  C2 (as amended). In the merge of \<^verbatim>\<open>getTemplates\<close> (line 366,
  \<^verbatim>\<open>Object.assign({}, ...res)\<close> over owned, shared, everyone) a record of a later
  collection replaces the record with the same id of an earlier one: the merged
  mapping gives an id the record of the last collection that has it. The array
  returned for a customer that is not free has one element per entry of the
  merged mapping.
\<close>

theorem getTemplates_merge_later_overrides:
  assumes "distinct (map fst owned)" and "distinct (map fst shared)"
    and "distinct (map fst everyone)"
  shows "map_of (Object_assign [owned, shared, everyone]) i =
           (case map_of everyone i of
              Some r \<Rightarrow> Some r
            | None \<Rightarrow> (case map_of shared i of Some r \<Rightarrow> Some r | None \<Rightarrow> map_of owned i))
         \<and> mergeTemplates e False [owned, shared, everyone] =
             map (\<lambda>(i, t). toTemplate e i t) (Object_assign [owned, shared, everyone])"
proof -
  have "map_of (Object_assign [owned, shared, everyone]) =
          map_of owned ++ map_of shared ++ map_of everyone"
    using assms by (simp add: Object_assign3 map_of_assign1)
  then show ?thesis
    by (simp add: map_add_def mergeTemplates_def split: option.splits)
qed

theorem getTemplates_merge_later_overrides_witness:
  "map_of (Object_assign [[(''t1'', row0\<lparr>title := ''mine''\<rparr>)],
                          [(''t1'', row0\<lparr>title := ''theirs''\<rparr>)],
                          [(''t2'', row0)]]) ''t1'' = Some (row0\<lparr>title := ''theirs''\<rparr>)"
proof -
  have d1: "distinct (map fst [(''t1'', row0\<lparr>title := ''mine''\<rparr>)])" by simp
  have d2: "distinct (map fst [(''t1'', row0\<lparr>title := ''theirs''\<rparr>)])" by simp
  have d3: "distinct (map fst [(''t2'', row0)])" by simp
  show ?thesis
    using getTemplates_merge_later_overrides [OF d1 d2 d3, of "''t1''" env0] by simp
qed

text \<open>
  C2 as stated fails: with the same id in the owned and in the shared
  collection, the merged mapping holds the shared record, and so does the
  returned array.
\<close>

theorem getTemplates_merge_first_wins_counterexample:
  "map_of [(''t1'', row0\<lparr>title := ''mine''\<rparr>)] ''t1'' = Some (row0\<lparr>title := ''mine''\<rparr>)
   \<and> map_of (Object_assign [[(''t1'', row0\<lparr>title := ''mine''\<rparr>)],
                            [(''t1'', row0\<lparr>title := ''theirs''\<rparr>)], []]) ''t1''
       \<noteq> Some (row0\<lparr>title := ''mine''\<rparr>)
   \<and> map title (mergeTemplates env0 False
        [[(''t1'', row0\<lparr>title := ''mine''\<rparr>)], [(''t1'', row0\<lparr>title := ''theirs''\<rparr>)], []])
       = [''theirs'']"
  by (simp add: Object_assign_def assign1_def mergeTemplates_def toTemplate_def row0_def
      convertToNativeDates_def row.extend_def template.fields_def)

section \<open>Usage statistics\<close>

lemma js_split_nonempty: "js_split sep s \<noteq> []"
  by (induction s) (simp_all split: list.splits)

lemma length_js_split: "length (js_split sep s) = Suc (count_list s sep)"
proof (induction s)
  case Nil
  show ?case by simp
next
  case (Cons c cs)
  show ?case
  proof (cases "js_split sep cs")
    case Nil
    then show ?thesis using js_split_nonempty by blast
  next
    case (Cons p ps)
    then show ?thesis using Cons.IH by simp
  qed
qed

lemma wordCount_spaces: "wordCount s = 1 + int (count_list s CHR '' '')"
  by (simp add: wordCount_def length_js_split)

lemma updateTemplateStats_words:
  "words (getExtensionData (updateTemplateStats i s w)) =
     (case words (getExtensionData w) of None \<Rightarrow> None | Some k \<Rightarrow> Some (k + wordCount s))"
  by (simp add: updateTemplateStats_def setExtensionData_def getExtensionData_def merge_ext_def
      Let_def split: option.splits)

lemma updateTemplateStats_lastUsed:
  "\<exists>m. templatesLastUsed (getExtensionData (updateTemplateStats i s w)) = Some m
       \<and> map_of m i = Some (clock w)"
  by (simp add: updateTemplateStats_def setExtensionData_def getExtensionData_def merge_ext_def
      Let_def update_conv')

text \<open>
  C9. \<^verbatim>\<open>updateTemplateStats\<close> records the current instant as the last-used time
  of the id, and adds \<^verbatim>\<open>plaintext.split(' ').length\<close> to the words count: one
  more than the number of space characters. For the empty plaintext that is
  one, not zero.
\<close>

theorem updateTemplateStats_empty_plaintext:
  "words (getExtensionData (updateTemplateStats i [] w)) =
     (case words (getExtensionData w) of None \<Rightarrow> None | Some k \<Rightarrow> Some (k + 1))"
  by (simp add: updateTemplateStats_words wordCount_def split: option.splits)

section \<open>User resolution\<close>

lemma getCollection_not_LoggedOut: "fst (getCollection e c u w) \<noteq> Inl LoggedOut"
  by (simp add: getCollection_def Let_def split: option.splits prod.splits)

lemma getActiveCustomer_not_LoggedOut: "fst (getActiveCustomer e u w) \<noteq> Inl LoggedOut"
proof -
  obtain r w1 where g: "getCollection e Users \<lparr>user_id = user_id u, user_customer = None\<rparr> w = (r, w1)"
    by (cases "getCollection e Users \<lparr>user_id = user_id u, user_customer = None\<rparr> w")
  then have "r \<noteq> Inl LoggedOut"
    using getCollection_not_LoggedOut [of e Users "\<lparr>user_id = user_id u, user_customer = None\<rparr>" w] by simp
  then show ?thesis
    by (auto simp: getActiveCustomer_def g split: sum.splits option.splits)
qed

lemma isFree_not_LoggedOut: "fst (isFree e u w) \<noteq> Inl LoggedOut"
proof -
  obtain r w1 where g: "getCollection e Customers u w = (r, w1)"
    by (cases "getCollection e Customers u w")
  then have "r \<noteq> Inl LoggedOut"
    using getCollection_not_LoggedOut [of e Customers u w] by simp
  then show ?thesis
    by (auto simp: isFree_def g split: sum.splits option.splits)
qed

lemma loadSession_frame:
  "storage (loadSession e w) = storage w \<and> requests (loadSession e w) = requests w"
  by (simp add: loadSession_def Let_def split: option.splits)

lemma clear_step_frame:
  "requests (snd (clear_step p)) = requests (snd p)
   \<and> background_calls (snd (clear_step p)) = background_calls (snd p)
   \<and> (collections (storage (snd (clear_step p))) = collections (storage (snd p))
        \<or> collections (storage (snd (clear_step p))) = (\<lambda>c. None))"
  by (cases p rule: clear_step.cases)
     (simp_all add: clearDataCache_clear_def clearDataCache_restore_def setExtensionData_def
        cleared_storage_def)

lemma clear_steps_frame:
  "requests (snd (clear_steps k p)) = requests (snd p)
   \<and> background_calls (snd (clear_steps k p)) = background_calls (snd p)
   \<and> (collections (storage (snd (clear_steps k p))) = collections (storage (snd p))
        \<or> collections (storage (snd (clear_steps k p))) = (\<lambda>c. None))"
proof (induction k arbitrary: p)
  case 0
  show ?case by simp
next
  case (Suc k)
  from Suc.IH [of "clear_step p"] clear_step_frame [of p]
  show ?case by auto
qed

lemma clear_steps_finished:
  "collections (storage (snd (clear_steps 3 (ClearStarted, w)))) = (\<lambda>c. None)"
  by (simp add: numeral_3_eq_3 clearDataCache_clear_def clearDataCache_restore_def
      setExtensionData_def cleared_storage_def)

text \<open>
  A user resolution that fails with the logged-out condition issues no remote
  query. It leaves the collection entries as they are, or, when it is the
  automatic logout that starts the cache clear, possibly all cleared.
\<close>

lemma getSignedInUser_LoggedOut_frame:
  assumes "getSignedInUser e w = (Inl LoggedOut, w1)"
  shows "requests w1 = requests w
         \<and> (collections (storage w1) = collections (storage w)
              \<or> collections (storage w1) = (\<lambda>c. None))
         \<and> (background_calls w1 = background_calls w \<longrightarrow>
               collections (storage w1) = collections (storage w))"
proof -
  let ?w' = "loadSession e w"
  have fr: "storage ?w' = storage w" "requests ?w' = requests w"
    using loadSession_frame by simp_all
  have bg: "background_calls ?w' = background_calls w"
    by (simp add: loadSession_def Let_def split: option.splits)
  show ?thesis
  proof (cases "authUser ?w'")
    case None
    show ?thesis
    proof (cases "case firebaseUser (storage w) of None \<Rightarrow> EmptyUser | Some v \<Rightarrow> v")
      case EmptyUser
      then show ?thesis using assms fr None
        by (auto simp: getSignedInUser_def getFirebaseUser_def Let_def)
    next
      case (StoredUser uid ucust)
      let ?w3 = "?w'\<lparr>badge := False,
                     background_calls := background_calls ?w' @ [BgClearDataCache]\<rparr>"
      let ?p4 = "clear_steps (clear_before_write e) (ClearStarted, ?w3)"
      let ?w5 = "snd (setSignedInUser EmptyUser (snd ?p4))"
      let ?w6 = "?w5\<lparr>triggered := triggered ?w5 @ [''logout'']\<rparr>"
      let ?p7 = "clear_steps (clear_before_settle e) (fst ?p4, ?w6)"
      have w1: "w1 = snd ?p7"
        using assms None StoredUser
        by (simp add: getSignedInUser_def getFirebaseUser_def Let_def)
      have f4: "requests (snd ?p4) = requests w
          \<and> background_calls (snd ?p4) = background_calls w @ [BgClearDataCache]
          \<and> (collections (storage (snd ?p4)) = collections (storage w)
               \<or> collections (storage (snd ?p4)) = (\<lambda>c. None))"
        using clear_steps_frame [of "clear_before_write e" "(ClearStarted, ?w3)"] fr bg by simp
      have f6: "requests ?w6 = requests w
          \<and> background_calls ?w6 = background_calls w @ [BgClearDataCache]
          \<and> (collections (storage ?w6) = collections (storage w)
               \<or> collections (storage ?w6) = (\<lambda>c. None))"
        using f4 by (simp add: setSignedInUser_def)
      have f7: "requests (snd ?p7) = requests w
          \<and> background_calls (snd ?p7) = background_calls w @ [BgClearDataCache]
          \<and> (collections (storage (snd ?p7)) = collections (storage w)
               \<or> collections (storage (snd ?p7)) = (\<lambda>c. None))"
        using clear_steps_frame [of "clear_before_settle e" "(fst ?p4, ?w6)"] f6 by auto
      show ?thesis using f7 by (simp add: w1)
    qed
  next
    case (Some fid)
    show ?thesis
    proof (cases "case firebaseUser (storage w) of None \<Rightarrow> EmptyUser | Some v \<Rightarrow> v")
      case EmptyUser
      then show ?thesis using assms fr Some
        by (auto simp: getSignedInUser_def getFirebaseUser_def Let_def)
    next
      case (StoredUser uid ucust)
      show ?thesis
      proof (cases "uid = fid")
        case False
        then show ?thesis using assms fr Some StoredUser
          by (auto simp: getSignedInUser_def getFirebaseUser_def Let_def)
      next
        case True
        obtain r w2 where g: "getActiveCustomer e \<lparr>user_id = uid, user_customer = ucust\<rparr> ?w' = (r, w2)"
          by (cases "getActiveCustomer e \<lparr>user_id = uid, user_customer = ucust\<rparr> ?w'")
        then have "r \<noteq> Inl LoggedOut"
          using getActiveCustomer_not_LoggedOut [of e "\<lparr>user_id = uid, user_customer = ucust\<rparr>" ?w'] by simp
        then show ?thesis using assms Some StoredUser True g
          by (auto simp: getSignedInUser_def getFirebaseUser_def Let_def split: sum.splits)
      qed
    qed
  qed
qed

lemma getSignedInUser_no_stored_user:
  assumes "firebaseUser (storage w) = None \<or> firebaseUser (storage w) = Some EmptyUser"
  shows "fst (getSignedInUser e w) = Inl LoggedOut"
  using assms
  by (auto simp: getSignedInUser_def getFirebaseUser_def Let_def split: option.splits)

section \<open>Promise.all over getCollection\<close>

text \<open>
  After a cache miss \<^verbatim>\<open>getCollection\<close> is the fetch; \<^verbatim>\<open>Promise.all\<close> over one
  call is that call. Two calls for one name with nothing cached issue two
  queries, and a fetch that follows a failed one still runs and caches. With
  two names and nothing cached the result is that of the events of the loop:
  both calls, both storage reads, then each fetch to its end.
\<close>

lemma getCollection_miss:
  "collections (storage w) c = None \<Longrightarrow> getCollection e c u w = getCollection_fetch e c u w"
  by (simp add: getCollection_def getCollection_fetch_def)

lemma getCollections_single:
  "getCollections e u [c] w =
     (case getCollection e c u w of
        (Inl x, w1) \<Rightarrow> (Inl x, w1)
      | (Inr d, w1) \<Rightarrow> (Inr [d], w1))"
proof (cases "collections (storage w) c")
  case None
  obtain r w1 where f: "getCollection_fetch e c u w = (r, w1)"
    by (cases "getCollection_fetch e c u w")
  show ?thesis
    using None f by (cases r) (simp_all add: getCollections_def getCollection_miss)
next
  case (Some cached)
  then show ?thesis by (simp add: getCollections_def getCollection_def)
qed

lemma getCollection_fetch_requests:
  "requests (snd (getCollection_fetch e c u w)) = requests w @ [getCollectionQuery c u]"
  by (simp add: getCollection_fetch_def refreshLocalData_def updateCache_def
      updateCache_write_def updateCache_stamp_def setExtensionData_def Let_def
      split: option.splits)

lemma getCollections_same_name_twice:
  assumes "collections (storage w) c = None"
  shows "requests (snd (getCollections e u [c, c] w))
           = requests w @ [getCollectionQuery c u, getCollectionQuery c u]"
proof -
  obtain r1 w1 where f1: "getCollection_fetch e c u w = (r1, w1)"
    by (cases "getCollection_fetch e c u w")
  obtain r2 w2 where f2: "getCollection_fetch e c u w1 = (r2, w2)"
    by (cases "getCollection_fetch e c u w1")
  have "requests w1 = requests w @ [getCollectionQuery c u]"
    using getCollection_fetch_requests [of e c u w] f1 by simp
  moreover have "requests w2 = requests w1 @ [getCollectionQuery c u]"
    using getCollection_fetch_requests [of e c u w1] f2 by simp
  ultimately show ?thesis using assms f1 f2 by (simp add: getCollections_def)
qed

lemma getCollections_fetch_after_failure:
  assumes "collections (storage w) c1 = None" and "collections (storage w) c2 = None"
    and "q_error (run_query e (getCollectionQuery c1 u)) = Some msg"
    and "q_error (run_query e (getCollectionQuery c2 u)) = None"
  shows "fst (getCollections e u [c1, c2] w) = Inl (RemoteError msg)
         \<and> collections (storage (snd (getCollections e u [c1, c2] w))) c2
             = Some (snapshot_data (snapshot_docs (run_query e (getCollectionQuery c2 u))))"
  using assms
  by (simp add: getCollections_def getCollection_fetch_def refreshLocalData_def updateCache_def
      updateCache_write_def updateCache_stamp_def setExtensionData_def Let_def)

lemma promise_all_fails:
  "Inl x \<in> set rs \<Longrightarrow> \<exists>y. Inl y \<in> set rs \<and> promise_all rs = Inl y"
proof (induction rs)
  case Nil
  then show ?case by simp
next
  case (Cons r rs)
  show ?case
  proof (cases r)
    case (Inl z)
    then show ?thesis by auto
  next
    case (Inr v)
    with Cons.prems have "Inl x \<in> set rs" by auto
    from Cons.IH [OF this] obtain y where "Inl y \<in> set rs" "promise_all rs = Inl y" by blast
    with Inr show ?thesis by auto
  qed
qed

lemma getCollections_fails:
  assumes "Inl x \<in> set (getCollections_settled e u cs w)"
  shows "\<exists>y. Inl y \<in> set (getCollections_settled e u cs w) \<and> fst (getCollections e u cs w) = Inl y"
proof -
  obtain rs w' where st: "settle_all e u (map (\<lambda>c. (c, collections (storage w) c)) cs) w = (rs, w')"
    by (cases "settle_all e u (map (\<lambda>c. (c, collections (storage w) c)) cs) w")
  with assms have "Inl x \<in> set rs" by (simp add: getCollections_settled_def)
  from promise_all_fails [OF this] obtain y where "Inl y \<in> set rs" "promise_all rs = Inl y"
    by blast
  with st show ?thesis by (auto simp: getCollections_settled_def getCollections_def)
qed

section \<open>autosync\<close>

text \<open>
  C3 (as amended). When the extension data has no \<^verbatim>\<open>lastSync\<close>, the elapsed time
  \<^verbatim>\<open>new Date() - new Date(undefined)\<close> is not a number and is not greater than
  any timeout: \<^verbatim>\<open>autosync\<close> resolves without calling \<^verbatim>\<open>refetchCollections\<close> and
  leaves the state as it is.
\<close>

theorem autosync_without_lastSync:
  assumes "lastSync (getExtensionData w) = None"
  shows "autosync e timeout w = (Inr None, w)"
  using assms by (simp add: autosync_def js_Date_def js_minus_def js_gt_def)

lemma autosync_with_lastSync:
  "lastSync (getExtensionData w) = Some t \<Longrightarrow>
     autosync e timeout w =
       (if clock w - t > timeout then refetchCollections e [] w else (Inr None, w))"
  by (simp add: autosync_def js_Date_def js_minus_def js_gt_def)

lemma world_cached_lastSync: "lastSync (getExtensionData world_cached) = None"
  by (simp add: world_cached_def world0_def getExtensionData_def cleared_storage_def empty_ext_def)

theorem autosync_without_lastSync_witness:
  "lastSync (getExtensionData world_cached) = None
   \<and> autosync env0 defaultSyncTimeout world_cached = (Inr None, world_cached)"
  using autosync_without_lastSync [OF world_cached_lastSync, of env0 defaultSyncTimeout]
    world_cached_lastSync by simp

lemma refetch_world_cached:
  "collections (storage (snd (refetchCollections env0 [] world_cached))) Tags = None"
  by (simp add: refetchCollections_def collectionsToClear_def invalidate_def allCollections_def getSignedInUser_def
     getFirebaseUser_def loadSession_def world_cached_def world0_def cleared_storage_def Let_def isLoggedOut_def)

text \<open>
  C3 as stated fails: with no \<^verbatim>\<open>lastSync\<close> and a cached tags collection,
  \<^verbatim>\<open>autosync(0)\<close> leaves the cache in place, where \<^verbatim>\<open>refetchCollections()\<close>
  would have invalidated it.
\<close>

theorem autosync_without_lastSync_counterexample:
  "lastSync (getExtensionData world_cached) = None
   \<and> collections (storage (snd (autosync env0 0 world_cached))) Tags = Some [(''g1'', row0)]
   \<and> collections (storage (snd (refetchCollections env0 [] world_cached))) Tags = None
   \<and> autosync env0 0 world_cached \<noteq> refetchCollections env0 [] world_cached"
proof -
  have a: "autosync env0 0 world_cached = (Inr None, world_cached)"
    using world_cached_lastSync by (simp add: autosync_def js_Date_def js_minus_def js_gt_def)
  have b: "collections (storage world_cached) Tags = Some [(''g1'', row0)]"
    by (simp add: world_cached_def world0_def cleared_storage_def)
  have c: "collections (storage (snd (refetchCollections env0 [] world_cached))) Tags = None"
    by (rule refetch_world_cached)
  have "autosync env0 0 world_cached \<noteq> refetchCollections env0 [] world_cached"
  proof
    assume "autosync env0 0 world_cached = refetchCollections env0 [] world_cached"
    then have "collections (storage (snd (autosync env0 0 world_cached))) Tags = None"
      using c by simp
    then show False using a b by simp
  qed
  then show ?thesis using a b c world_cached_lastSync by simp
qed

section \<open>refetchCollections\<close>

text \<open>
  C4 (as amended). \<^verbatim>\<open>refetchCollections\<close> first sets the named collections
  (all six by default) to null. When the user resolution that follows fails
  with the logged-out condition, the call resolves successfully and no remote
  query has been issued; the named collections are null, and every other
  collection entry is unchanged or cleared. It is unchanged when the user
  resolution started no cache clear; the automatic logout starts one, which
  removes every entry, before or after the call resolves. A failure other than
  logged-out of the user resolution or of the plan lookup is what the call
  fails with; when one of the fetches fails, the call fails with the failure of
  one of them.
\<close>

theorem refetchCollections_failures:
  "(getSignedInUser e (invalidate (collectionsToClear cs) w) = (Inl LoggedOut, w1) \<longrightarrow>
      refetchCollections e cs w = (Inr None, w1)
      \<and> requests w1 = requests w
      \<and> (\<forall>c. c \<in> set (collectionsToClear cs) \<longrightarrow> collections (storage w1) c = None)
      \<and> (\<forall>c. collections (storage w1) c = None
              \<or> collections (storage w1) c = collections (storage w) c)
      \<and> (background_calls w1 = background_calls w \<longrightarrow>
            collections (storage w1) =
              (\<lambda>c. if c \<in> set (collectionsToClear cs) then None else collections (storage w) c)))
   \<and> (getSignedInUser e (invalidate (collectionsToClear cs) w) = (Inl x, w1) \<and> x \<noteq> LoggedOut \<longrightarrow>
      refetchCollections e cs w = (Inl x, w1))
   \<and> (getSignedInUser e (invalidate (collectionsToClear cs) w) = (Inr u, w1)
      \<and> isFree e u w1 = (Inl x, w2) \<longrightarrow>
      x \<noteq> LoggedOut \<and> refetchCollections e cs w = (Inl x, w2))
   \<and> (getSignedInUser e (invalidate (collectionsToClear cs) w) = (Inr u, w1)
      \<and> isFree e u w1 = (Inr free, w2)
      \<and> Inl x \<in> set (getCollections_settled e u
                          (collectionsToRefetch free (collectionsToClear cs)) w2) \<longrightarrow>
      (\<exists>y. Inl y \<in> set (getCollections_settled e u
                            (collectionsToRefetch free (collectionsToClear cs)) w2)
           \<and> fst (refetchCollections e cs w) = Inl y))"
proof (intro conjI impI allI)
  assume a: "getSignedInUser e (invalidate (collectionsToClear cs) w) = (Inl LoggedOut, w1)"
  let ?w0 = "invalidate (collectionsToClear cs) w"
  have inv: "collections (storage ?w0) =
      (\<lambda>c. if c \<in> set (collectionsToClear cs) then None else collections (storage w) c)"
    and invr: "requests ?w0 = requests w" and invb: "background_calls ?w0 = background_calls w"
    by (simp_all add: invalidate_def)
  note fr = getSignedInUser_LoggedOut_frame [OF a]
  show "refetchCollections e cs w = (Inr None, w1)"
    by (simp add: refetchCollections_def a isLoggedOut_def)
  show "requests w1 = requests w"
    using fr invr by simp
  show "collections (storage w1) c = None" if "c \<in> set (collectionsToClear cs)" for c
    using fr inv that by auto
  show "collections (storage w1) c = None
          \<or> collections (storage w1) c = collections (storage w) c" for c
    using fr inv by auto
  show "collections (storage w1) =
          (\<lambda>c. if c \<in> set (collectionsToClear cs) then None else collections (storage w) c)"
    if "background_calls w1 = background_calls w"
    using fr inv invb that by simp
next
  assume "getSignedInUser e (invalidate (collectionsToClear cs) w) = (Inl x, w1) \<and> x \<noteq> LoggedOut"
  then show "refetchCollections e cs w = (Inl x, w1)"
    by (simp add: refetchCollections_def isLoggedOut_def)
next
  assume a: "getSignedInUser e (invalidate (collectionsToClear cs) w) = (Inr u, w1)
      \<and> isFree e u w1 = (Inl x, w2)"
  then show x: "x \<noteq> LoggedOut"
    using isFree_not_LoggedOut [of e u w1] by auto
  show "refetchCollections e cs w = (Inl x, w2)"
    using a x by (simp add: refetchCollections_def isLoggedOut_def)
next
  let ?cs = "collectionsToRefetch free (collectionsToClear cs)"
  assume a: "getSignedInUser e (invalidate (collectionsToClear cs) w) = (Inr u, w1)
      \<and> isFree e u w1 = (Inr free, w2)
      \<and> Inl x \<in> set (getCollections_settled e u ?cs w2)"
  then obtain y where y: "Inl y \<in> set (getCollections_settled e u ?cs w2)"
      "fst (getCollections e u ?cs w2) = Inl y"
    using getCollections_fails [of x e u ?cs w2] by blast
  obtain r w3 where g: "getCollections e u ?cs w2 = (r, w3)"
    by (cases "getCollections e u ?cs w2")
  then have "r = Inl y" using y by simp
  then have "fst (refetchCollections e cs w) = Inl y"
    using a g by (simp add: refetchCollections_def)
  with y show "\<exists>y. Inl y \<in> set (getCollections_settled e u ?cs w2)
      \<and> fst (refetchCollections e cs w) = Inl y" by blast
qed

lemma signed_in_1:
  "getSignedInUser e (invalidate [Tags] world_signed_in) = (Inr user1, invalidate [Tags] world_signed_in)"
  by (simp add: getSignedInUser_def getFirebaseUser_def loadSession_def getActiveCustomer_def
      getCollection_def invalidate_def world_signed_in_def world0_def cache1_def row0_def user1_def Let_def)

lemma signed_in_2:
  "isFree e user1 (invalidate [Tags] world_signed_in) = (Inr True, invalidate [Tags] world_signed_in)"
  by (simp add: isFree_def 
      getCollection_def invalidate_def world_signed_in_def world0_def cache1_def row0_def user1_def Let_def)

lemma signed_in_3:
  "getCollections_settled env_offline user1 (collectionsToRefetch True (collectionsToClear [Tags]))
     (invalidate [Tags] world_signed_in)
    = [Inl (RemoteError ''offline'')]"
  by (simp add: collectionsToRefetch_def collectionsToClear_def env_offline_def env0_def
      getCollections_settled_def getCollection_fetch_def invalidate_def world_signed_in_def world0_def
      cache1_def row0_def user1_def Let_def)

lemma logged_out_1:
  "getSignedInUser env0 (invalidate (collectionsToClear []) world_cached)
    = (Inl LoggedOut, (invalidate (collectionsToClear []) world_cached)\<lparr>sessionLoaded := True\<rparr>)"
  by (simp add: getSignedInUser_def getFirebaseUser_def loadSession_def invalidate_def
     world_cached_def world0_def cleared_storage_def Let_def)

lemma no_user_row_1:
  "getSignedInUser env0 (invalidate (collectionsToClear [Tags]) world_no_user_row)
     = (Inl TypeError, invalidate (collectionsToClear [Tags]) world_no_user_row)"
  by (simp add: getSignedInUser_def getFirebaseUser_def loadSession_def getActiveCustomer_def
      getCollection_def invalidate_def collectionsToClear_def world_no_user_row_def
      world_signed_in_def world0_def cache1_def Let_def)

lemma no_customer_row_1:
  "getSignedInUser env0 (invalidate (collectionsToClear [Tags]) world_no_customer_row)
     = (Inr user1, invalidate (collectionsToClear [Tags]) world_no_customer_row)"
  by (simp add: getSignedInUser_def getFirebaseUser_def loadSession_def getActiveCustomer_def
      getCollection_def invalidate_def collectionsToClear_def world_no_customer_row_def
      world_signed_in_def world0_def cache1_def row0_def user1_def Let_def)

lemma no_customer_row_2:
  "isFree env0 user1 (invalidate (collectionsToClear [Tags]) world_no_customer_row)
     = (Inl TypeError, invalidate (collectionsToClear [Tags]) world_no_customer_row)"
  by (simp add: isFree_def getCollection_def invalidate_def collectionsToClear_def
      world_no_customer_row_def world_signed_in_def world0_def cache1_def user1_def Let_def)

lemma remote_logout_1:
  "\<exists>w1. getSignedInUser env_clear_first (invalidate (collectionsToClear [Tags]) world_remote_logout)
          = (Inl LoggedOut, w1)
        \<and> collections (storage w1) TemplatesOwned = None
        \<and> background_calls w1 = [BgClearDataCache]"
  by (simp add: getSignedInUser_def getFirebaseUser_def loadSession_def invalidate_def
      collectionsToClear_def world_remote_logout_def world_signed_in_def world0_def
      env_clear_first_def env0_def numeral_2_eq_2 clearDataCache_clear_def cleared_storage_def
      setSignedInUser_def Let_def)

lemma signed_out_1:
  "getSignedInUser env0 (invalidate (collectionsToClear [Tags]) world_signed_out)
    = (Inl LoggedOut, (invalidate (collectionsToClear [Tags]) world_signed_out)\<lparr>sessionLoaded := True\<rparr>)"
  by (simp add: getSignedInUser_def getFirebaseUser_def loadSession_def invalidate_def
     world_signed_out_def world0_def cleared_storage_def Let_def)

lemma signed_out_2:
  "collections (storage world_signed_out) TemplatesOwned = Some owned1
   \<and> collections (storage world_signed_out) Tags \<noteq> None"
  by (simp add: world_signed_out_def world0_def cache1_def owned1_def)

lemma remote_logout_2:
  "collections (storage world_remote_logout) TemplatesOwned = Some owned1"
  by (simp add: world_remote_logout_def world_signed_in_def world0_def cache1_def owned1_def)

theorem refetchCollections_failures_witness:
  "fst (refetchCollections env0 [] world_cached) = Inr None
   \<and> requests (snd (refetchCollections env0 [] world_cached)) = requests world_cached
   \<and> collections (storage (snd (refetchCollections env0 [] world_cached))) Tags = None
   \<and> fst (refetchCollections env0 [Tags] world_signed_out) = Inr None
   \<and> collections (storage world_signed_out) Tags \<noteq> None
   \<and> collections (storage (snd (refetchCollections env0 [Tags] world_signed_out))) Tags = None
   \<and> collections (storage (snd (refetchCollections env0 [Tags] world_signed_out))) TemplatesOwned
        = Some owned1
   \<and> fst (refetchCollections env_clear_first [Tags] world_remote_logout) = Inr None
   \<and> collections (storage world_remote_logout) TemplatesOwned = Some owned1
   \<and> collections (storage (snd (refetchCollections env_clear_first [Tags] world_remote_logout)))
        TemplatesOwned = None
   \<and> fst (refetchCollections env0 [Tags] world_no_user_row) = Inl TypeError
   \<and> fst (refetchCollections env0 [Tags] world_no_customer_row) = Inl TypeError
   \<and> fst (refetchCollections env_offline [Tags] world_signed_in) = Inl (RemoteError ''offline'')"
proof -
  have c: "collectionsToClear [Tags] = [Tags]" by (simp add: collectionsToClear_def)
  have "fst (refetchCollections env_offline [Tags] world_signed_in) = Inl (RemoteError ''offline'')"
    using refetchCollections_failures [where e = env_offline and cs = "[Tags]"
        and w = world_signed_in and u = user1 and ?w1.0 = "invalidate [Tags] world_signed_in"
        and ?w2.0 = "invalidate [Tags] world_signed_in" and free = True
        and x = "RemoteError ''offline''"]
      signed_in_1 signed_in_2 signed_in_3 c by simp
  moreover have "fst (refetchCollections env0 [] world_cached) = Inr None
   \<and> requests (snd (refetchCollections env0 [] world_cached)) = requests world_cached
   \<and> collections (storage (snd (refetchCollections env0 [] world_cached))) Tags = None"
    using refetchCollections_failures [where e = env0 and cs = "[]" and w = world_cached
        and ?w1.0 = "(invalidate (collectionsToClear []) world_cached)\<lparr>sessionLoaded := True\<rparr>"]
      logged_out_1 by (simp add: collectionsToClear_def allCollections_def)
  moreover have "fst (refetchCollections env0 [Tags] world_signed_out) = Inr None
   \<and> collections (storage (snd (refetchCollections env0 [Tags] world_signed_out))) Tags = None
   \<and> collections (storage (snd (refetchCollections env0 [Tags] world_signed_out))) TemplatesOwned
        = Some owned1"
  proof -
    let ?w1 = "(invalidate (collectionsToClear [Tags]) world_signed_out)\<lparr>sessionLoaded := True\<rparr>"
    have b: "background_calls ?w1 = background_calls world_signed_out"
      by (simp add: invalidate_def)
    from refetchCollections_failures [where e = env0 and cs = "[Tags]" and w = world_signed_out
        and ?w1.0 = ?w1] signed_out_1 b
    have "refetchCollections env0 [Tags] world_signed_out = (Inr None, ?w1)
      \<and> collections (storage ?w1) =
          (\<lambda>c. if c \<in> set (collectionsToClear [Tags]) then None
               else collections (storage world_signed_out) c)"
      by simp
    then show ?thesis using signed_out_2 by (simp add: collectionsToClear_def)
  qed
  moreover have "fst (refetchCollections env_clear_first [Tags] world_remote_logout) = Inr None
   \<and> collections (storage (snd (refetchCollections env_clear_first [Tags] world_remote_logout)))
        TemplatesOwned = None"
  proof -
    from remote_logout_1 obtain w1 where
      g: "getSignedInUser env_clear_first (invalidate (collectionsToClear [Tags]) world_remote_logout)
            = (Inl LoggedOut, w1)"
      and n: "collections (storage w1) TemplatesOwned = None" by blast
    from refetchCollections_failures [where e = env_clear_first and cs = "[Tags]"
        and w = world_remote_logout and ?w1.0 = w1] g
    have "refetchCollections env_clear_first [Tags] world_remote_logout = (Inr None, w1)"
      by simp
    then show ?thesis using n by simp
  qed
  moreover have "fst (refetchCollections env0 [Tags] world_no_user_row) = Inl TypeError"
    using refetchCollections_failures [where e = env0 and cs = "[Tags]" and w = world_no_user_row
        and x = TypeError
        and ?w1.0 = "invalidate (collectionsToClear [Tags]) world_no_user_row"]
      no_user_row_1 by simp
  moreover have "fst (refetchCollections env0 [Tags] world_no_customer_row) = Inl TypeError"
    using refetchCollections_failures [where e = env0 and cs = "[Tags]"
        and w = world_no_customer_row and x = TypeError and u = user1
        and ?w1.0 = "invalidate (collectionsToClear [Tags]) world_no_customer_row"
        and ?w2.0 = "invalidate (collectionsToClear [Tags]) world_no_customer_row"]
      no_customer_row_1 no_customer_row_2 by simp
  ultimately show ?thesis using remote_logout_2 signed_out_2 by simp
qed

text \<open>
  C4 as stated fails: logged out, with a cached tags collection,
  \<^verbatim>\<open>refetchCollections()\<close> resolves successfully and the cached tags are gone.
\<close>

theorem refetchCollections_no_effect_counterexample:
  "fst (getSignedInUser env0 (invalidate (collectionsToClear []) world_cached)) = Inl LoggedOut
   \<and> fst (refetchCollections env0 [] world_cached) = Inr None
   \<and> collections (storage world_cached) Tags = Some [(''g1'', row0)]
   \<and> collections (storage (snd (refetchCollections env0 [] world_cached))) Tags = None"
proof -
  have r: "refetchCollections env0 [] world_cached
      = (Inr None, (invalidate (collectionsToClear []) world_cached)\<lparr>sessionLoaded := True\<rparr>)"
    by (simp add: refetchCollections_def logged_out_1 isLoggedOut_def)
  have "collections (storage world_cached) Tags = Some [(''g1'', row0)]"
    by (simp add: world_cached_def world0_def cleared_storage_def)
  moreover have "collections (storage ((invalidate (collectionsToClear []) world_cached)\<lparr>sessionLoaded := True\<rparr>)) Tags = None"
    by (simp add: invalidate_def collectionsToClear_def allCollections_def)
  ultimately show ?thesis by (simp add: r logged_out_1)
qed

section \<open>getTemplates for a free customer\<close>

lemma insert_by_compareCreated:
  "insert_by compareCreated x ys = insort_key createdTime x ys"
  by (induction ys) (simp_all add: compareCreated_def)

lemma js_sort_compareCreated: "js_sort compareCreated xs = sort_key createdTime xs"
  by (induction xs) (simp_all add: js_sort_def insert_by_compareCreated sort_key_def)

lemma set_update_subset: "set (AList.update k v al) \<subseteq> insert (k, v) (set al)"
  by (induction al) auto

lemma set_assign1_subset: "set (assign1 tgt src) \<subseteq> set tgt \<union> set src"
proof (induction src arbitrary: tgt)
  case Nil
  then show ?case by (simp add: assign1_def)
next
  case (Cons kv src)
  have "assign1 tgt (kv # src) = assign1 (AList.update (fst kv) (snd kv) tgt) src"
    by (simp add: assign1_def)
  moreover have "set (assign1 (AList.update (fst kv) (snd kv) tgt) src)
      \<subseteq> set (AList.update (fst kv) (snd kv) tgt) \<union> set src"
    by (rule Cons.IH)
  moreover have "set (AList.update (fst kv) (snd kv) tgt) \<subseteq> insert kv (set tgt)"
    using set_update_subset [of "fst kv" "snd kv" tgt] by simp
  ultimately show ?case by auto
qed

lemma row_id_toTemplate: "row_id (toTemplate e i t) = i"
  by (simp add: toTemplate_def row.extend_def)

lemma mergeTemplates_free:
  "length (mergeTemplates e True [owned]) \<le> 30
   \<and> sorted (map createdTime (mergeTemplates e True [owned]))
   \<and> (\<forall>t \<in> set (mergeTemplates e True [owned]).
         \<exists>r. (row_id t, r) \<in> set owned \<and> t = toTemplate e (row_id t) r)"
proof -
  let ?all = "map (\<lambda>(i, t). toTemplate e i t) (Object_assign [owned])"
  have m: "mergeTemplates e True [owned] = take 30 (sort_key createdTime ?all)"
    by (simp add: mergeTemplates_def js_sort_compareCreated templatesFreeLimit_def)
  have l: "length (mergeTemplates e True [owned]) \<le> 30"
    by (simp add: m)
  have "sorted (map createdTime (sort_key createdTime ?all))"
    by (rule sorted_sort_key)
  then have "sorted (take 30 (map createdTime (sort_key createdTime ?all)))"
    by (rule sorted_wrt_take)
  then have s: "sorted (map createdTime (mergeTemplates e True [owned]))"
    by (simp add: m take_map)
  have sub: "set (Object_assign [owned]) \<subseteq> set owned"
    using set_assign1_subset [of "[]" owned] by (simp add: Object_assign_def)
  have "\<exists>r. (row_id t, r) \<in> set owned \<and> t = toTemplate e (row_id t) r"
    if "t \<in> set (mergeTemplates e True [owned])" for t
  proof -
    from that have "t \<in> set ?all"
      unfolding m using set_take_subset [of 30 "sort_key createdTime ?all"] by auto
    then obtain i r where ir: "(i, r) \<in> set (Object_assign [owned])" and t: "t = toTemplate e i r"
      by auto
    then show ?thesis using sub by (auto simp: row_id_toTemplate)
  qed
  then show ?thesis using l s by blast
qed

text \<open>
  C5. For a signed-in user whose customer is on the free plan, \<^verbatim>\<open>getTemplates\<close>
  fetches the owned templates only and returns a list of at most 30 elements,
  sorted ascending by creation date, each built from an entry of the
  \<^verbatim>\<open>templatesOwned\<close> mapping; the state after the call is the state after
  that one fetch.
\<close>

theorem getTemplates_free_plan:
  assumes "getSignedInUser e w = (Inr u, w1)"
    and "isFree e u w1 = (Inr True, w2)"
    and "getCollection e TemplatesOwned u w2 = (Inr owned, w3)"
  shows "\<exists>ts. getTemplates e w = (Inr ts, w3)
           \<and> length ts \<le> 30
           \<and> sorted (map createdTime ts)
           \<and> (\<forall>t \<in> set ts. \<exists>r. (row_id t, r) \<in> set owned \<and> t = toTemplate e (row_id t) r)"
proof -
  have "getTemplates e w = (Inr (mergeTemplates e True [owned]), w3)"
    using assms by (simp add: getTemplates_def getCollections_single orDefault_def)
  then show ?thesis using mergeTemplates_free [of e owned] by blast
qed

lemma free_1: "getSignedInUser env0 world_signed_in = (Inr user1, world_signed_in)"
  by (simp add: getSignedInUser_def getFirebaseUser_def loadSession_def getActiveCustomer_def
      getCollection_def world_signed_in_def world0_def cache1_def row0_def user1_def Let_def)

lemma free_2: "isFree env0 user1 world_signed_in = (Inr True, world_signed_in)"
  by (simp add: isFree_def getCollection_def world_signed_in_def world0_def cache1_def row0_def
      user1_def Let_def)

lemma free_3: "getCollection env0 TemplatesOwned user1 world_signed_in = (Inr owned1, world_signed_in)"
  by (simp add: getCollection_def world_signed_in_def world0_def cache1_def owned1_def)

lemma free_4: "map row_id (mergeTemplates env0 True [owned1]) = [''t2'', ''t1'']"
  by (simp add: mergeTemplates_def Object_assign_def assign1_def owned1_def js_sort_def
     compareCreated_def createdTime_def toTemplate_def convertToNativeDates_def row0_def
     row.extend_def template.fields_def templatesFreeLimit_def)

lemma free_5:
  "getTemplates env0 world_signed_in = (Inr (mergeTemplates env0 True [owned1]), world_signed_in)"
  by (simp add: getTemplates_def getCollections_single free_1 free_2 free_3 orDefault_def)

theorem getTemplates_free_plan_witness:
  "\<exists>ts. getTemplates env0 world_signed_in = (Inr ts, world_signed_in)
           \<and> length ts \<le> 30
           \<and> sorted (map createdTime ts)
           \<and> (\<forall>t \<in> set ts. \<exists>r. (row_id t, r) \<in> set owned1 \<and> t = toTemplate env0 (row_id t) r)
           \<and> map row_id ts = [''t2'', ''t1'']"
proof -
  from getTemplates_free_plan [OF free_1 free_2 free_3]
  obtain ts where ts: "getTemplates env0 world_signed_in = (Inr ts, world_signed_in)"
    "length ts \<le> 30" "sorted (map createdTime ts)"
    "\<forall>t \<in> set ts. \<exists>r. (row_id t, r) \<in> set owned1 \<and> t = toTemplate env0 (row_id t) r"
    by blast
  have "ts = mergeTemplates env0 True [owned1]" using ts(1) free_5 by simp
  then have "map row_id ts = [''t2'', ''t1'']" by (simp add: free_4)
  with ts have "getTemplates env0 world_signed_in = (Inr ts, world_signed_in)
           \<and> length ts \<le> 30
           \<and> sorted (map createdTime ts)
           \<and> (\<forall>t \<in> set ts. \<exists>r. (row_id t, r) \<in> set owned1 \<and> t = toTemplate env0 (row_id t) r)
           \<and> map row_id ts = [''t2'', ''t1'']"
    by simp
  then show ?thesis by (rule exI [of _ ts])
qed

section \<open>logout\<close>

text \<open>
  The three steps of the cache clear make up \<^verbatim>\<open>clearDataCache\<close>, and the last
  step of \<^verbatim>\<open>logout\<close> with no step of the clear gives the state in which
  \<^verbatim>\<open>logout\<close> returns.
\<close>

lemma clearDataCache_as_steps:
  "race_world (race_run [ClearTask, ClearTask, ClearTask]
      \<lparr>race_world = w, clear_stage = ClearStarted, logout_returned = b\<rparr>) = clearDataCache w"
  by (simp add: race_run_def clearDataCache_def)

lemma logout_as_steps:
  "race_world (race_run [LogoutTask] (logout_started e w)) = snd (logout e w)"
  by (simp add: race_run_def logout_started_def logout_def)

lemma race_inv_started: "race_inv (words (getExtensionData w)) (logout_started e w)"
  by (simp add: race_inv_def logout_started_def logout_begin_def setSignedInUser_def
      getExtensionData_def Let_def)

lemma race_inv_step: "race_inv n0 r \<Longrightarrow> race_inv n0 (race_step r t)"
proof (cases t)
  case LogoutTask
  assume "race_inv n0 r"
  then show ?thesis using LogoutTask
    by (auto simp: race_inv_def logout_finish_def split: clear_stage.splits)
next
  case ClearTask
  assume "race_inv n0 r"
  then show ?thesis using ClearTask
    by (cases "clear_stage r")
       (auto simp: race_inv_def clearDataCache_read_def clearDataCache_clear_def
          clearDataCache_restore_def getExtensionData_def setExtensionData_def merge_ext_def
          cleared_storage_def empty_ext_def split: option.splits)
qed

lemma race_inv_run: "race_inv n0 r \<Longrightarrow> race_inv n0 (race_run sched r)"
  unfolding race_run_def
  by (induction sched arbitrary: r) (simp_all add: race_inv_step)

text \<open>
  C8 (as amended). From the moment \<^verbatim>\<open>logout\<close> has stored the empty user, and
  however the steps of the rest of \<^verbatim>\<open>logout\<close> and of the cache clear it
  started interleave, \<^verbatim>\<open>getSignedInUser\<close> fails with the logged-out condition.
  Once \<^verbatim>\<open>logout\<close> has returned and the cache clear has finished, the words
  count is the one from before \<^verbatim>\<open>logout\<close> and every collection entry is
  absent.
\<close>

theorem logout_settled:
  "fst (getSignedInUser e (race_world (race_run sched (logout_started e w)))) = Inl LoggedOut
   \<and> (logout_returned (race_run sched (logout_started e w))
        \<and> clear_stage (race_run sched (logout_started e w)) = ClearDone \<longrightarrow>
      words (getExtensionData (race_world (race_run sched (logout_started e w))))
        = words (getExtensionData w)
      \<and> (\<forall>c. collections (storage (race_world (race_run sched (logout_started e w)))) c = None))"
proof -
  let ?r = "race_run sched (logout_started e w)"
  have inv: "race_inv (words (getExtensionData w)) ?r"
    by (rule race_inv_run [OF race_inv_started])
  then have "firebaseUser (storage (race_world ?r)) = None
        \<or> firebaseUser (storage (race_world ?r)) = Some EmptyUser"
    by (simp add: race_inv_def)
  then have a: "fst (getSignedInUser e (race_world ?r)) = Inl LoggedOut"
    by (rule getSignedInUser_no_stored_user)
  show ?thesis using a inv by (auto simp: race_inv_def getExtensionData_def)
qed

lemma race_example:
  "logout_returned (race_run [ClearTask, LogoutTask, ClearTask, ClearTask] (logout_started env0 world_signed_in))
   \<and> clear_stage (race_run [ClearTask, LogoutTask, ClearTask, ClearTask] (logout_started env0 world_signed_in)) = ClearDone"
  by (simp add: race_run_def logout_started_def)

theorem logout_settled_witness:
  "fst (getSignedInUser env0 (race_world
      (race_run [ClearTask, LogoutTask, ClearTask, ClearTask] (logout_started env0 world_signed_in))))
     = Inl LoggedOut
   \<and> words (getExtensionData (race_world
      (race_run [ClearTask, LogoutTask, ClearTask, ClearTask] (logout_started env0 world_signed_in))))
     = Some 5
   \<and> collections (storage (race_world
      (race_run [ClearTask, LogoutTask, ClearTask, ClearTask] (logout_started env0 world_signed_in))))
      TemplatesOwned = None"
proof -
  have "words (getExtensionData world_signed_in) = Some 5"
    by (simp add: world_signed_in_def world0_def getExtensionData_def empty_ext_def)
  then show ?thesis
    using logout_settled [of env0 "[ClearTask, LogoutTask, ClearTask, ClearTask]" world_signed_in]
      race_example by simp
qed

text \<open>
  C8 as stated fails: \<^verbatim>\<open>clearDataCache()\<close> is not awaited, so when \<^verbatim>\<open>logout\<close>
  returns the owned templates are still cached; and in the schedule where the
  clear has run but the write of \<^verbatim>\<open>words\<close> has not, \<^verbatim>\<open>logout\<close> has returned
  and the words count is gone.
\<close>

theorem logout_returned_counterexample:
  "fst (logout env0 world_signed_in) = True
   \<and> collections (storage (snd (logout env0 world_signed_in))) TemplatesOwned = Some owned1
   \<and> logout_returned (race_run [ClearTask, LogoutTask, ClearTask] (logout_started env0 world_signed_in))
   \<and> words (getExtensionData world_signed_in) = Some 5
   \<and> words (getExtensionData (race_world
         (race_run [ClearTask, LogoutTask, ClearTask] (logout_started env0 world_signed_in)))) = None"
  by (simp add: logout_def logout_finish_def logout_begin_def setSignedInUser_def
      world_signed_in_def world0_def cache1_def owned1_def race_run_def logout_started_def
      clearDataCache_read_def clearDataCache_clear_def getExtensionData_def cleared_storage_def
      empty_ext_def Let_def)

section \<open>searchTemplates\<close>

lemma search_run_append:
  "search_run e (xs @ ys) s = search_run e ys (search_run e xs s)"
  by (simp add: search_run_def)

lemma search_run_Cons:
  "search_run e (x # xs) s = search_run e xs (search_step e s x)"
  by (simp add: search_run_def)

lemma search_run_Nil: "search_run e [] s = s"
  by (simp add: search_run_def)

lemma search_ok_step: "search_ok s \<Longrightarrow> search_ok (search_step e s ev)"
  by (cases ev)
     (auto simp: search_ok_def searchTemplates_call_def searchTemplates_then_def Let_def
        list_all_iff)

lemma search_ok_run: "search_ok s \<Longrightarrow> search_ok (search_run e evs s)"
  by (induction evs arbitrary: s) (simp_all add: search_run_Nil search_run_Cons search_ok_step)

lemma search_ok_init: "search_ok search_init"
  by (simp add: search_ok_def search_init_def)

lemma search_ok_fresh: "search_ok s \<Longrightarrow> map_of (resolved s) (length (issued s)) = None"
  by (auto simp: search_ok_def list_all_iff map_of_eq_None_iff)

lemma call_state:
  "issued (searchTemplates_call q s) ! length (issued s) = q
   \<and> length (issued s) < length (issued (searchTemplates_call q s))
   \<and> lastSearchQuery (searchTemplates_call q s) = q
   \<and> resolved (searchTemplates_call q s) = resolved s"
  by (simp add: searchTemplates_call_def)

lemma step_keeps_issued:
  "k < length (issued s) \<Longrightarrow>
     k < length (issued (search_step e s ev)) \<and> issued (search_step e s ev) ! k = issued s ! k"
  by (cases ev) (auto simp: searchTemplates_call_def searchTemplates_then_def Let_def nth_append)

lemma run_keeps_issued:
  "k < length (issued s) \<Longrightarrow>
     k < length (issued (search_run e evs s)) \<and> issued (search_run e evs s) ! k = issued s ! k"
proof (induction evs arbitrary: s)
  case Nil
  then show ?case by (simp add: search_run_Nil)
next
  case (Cons ev evs)
  from step_keeps_issued [OF Cons.prems, of e ev]
  have a: "k < length (issued (search_step e s ev))"
    and b: "issued (search_step e s ev) ! k = issued s ! k" by simp_all
  from Cons.IH [OF a] show ?case by (simp add: search_run_Cons b)
qed

lemma step_unresolved:
  "map_of (resolved s) k = None \<Longrightarrow> \<not> resolves k ev \<Longrightarrow>
     map_of (resolved (search_step e s ev)) k = None"
  by (cases ev) (auto simp: searchTemplates_call_def searchTemplates_then_def Let_def)



lemma run_unresolved:
  "list_all (\<lambda>ev. \<not> resolves k ev) evs \<Longrightarrow> map_of (resolved s) k = None \<Longrightarrow>
     map_of (resolved (search_run e evs s)) k = None"
  by (induction evs arbitrary: s) (simp_all add: search_run_Nil search_run_Cons step_unresolved)

lemma step_not_reissued:
  "ev \<noteq> Search q \<Longrightarrow> lastSearchQuery s \<noteq> q \<Longrightarrow> lastSearchQuery (search_step e s ev) \<noteq> q"
  by (cases ev) (auto simp: searchTemplates_call_def searchTemplates_then_def Let_def)

lemma run_not_reissued:
  "not_reissued q k evs \<Longrightarrow> lastSearchQuery s \<noteq> q \<Longrightarrow> map_of (resolved s) k = None \<Longrightarrow>
     lastSearchQuery (search_run e evs s) \<noteq> q
     \<and> map_of (resolved (search_run e evs s)) k = None"
proof (induction evs arbitrary: s)
  case Nil
  then show ?case by (simp add: search_run_Nil)
next
  case (Cons ev evs)
  then have q: "not_reissued q k evs" and nq: "ev \<noteq> Search q" and nr: "\<not> resolves k ev"
    by (simp_all add: not_reissued_def)
  have u: "map_of (resolved (search_step e s ev)) k = None"
    using Cons.prems(3) nr by (rule step_unresolved)
  have l: "lastSearchQuery (search_step e s ev) \<noteq> q"
    using nq Cons.prems(2) by (rule step_not_reissued)
  from Cons.IH [OF q l u] show ?case
    by (simp add: search_run_Cons)
qed

lemma then_result:
  assumes "k < length (issued s)" and "map_of (resolved s) k = None"
  shows "map_of (resolved (search_step e s (FetchesResolved k ts tgs))) k =
           Some (if issued s ! k \<noteq> lastSearchQuery s then canceled
                 else ranking e (issued s ! k) ts tgs)
         \<and> ranked (search_step e s (FetchesResolved k ts tgs)) =
             (if issued s ! k \<noteq> lastSearchQuery s then ranked s else ranked s @ [issued s ! k])"
  using assms
  by (simp add: searchTemplates_then_def canceled_def ranking_def Let_def map_add_Some_iff)


text \<open>
  C6 (as amended). Let call \<open>k\<close> be \<^verbatim>\<open>searchTemplates(q1)\<close>, issued after any events
  \<open>pre\<close>. If \<^verbatim>\<open>searchTemplates(q2)\<close> with \<open>q2 \<noteq> q1\<close> is issued before the
  fetches of call \<open>k\<close> resolve (events \<open>mid\<close> in between, which do not
  resolve \<open>k\<close>), and no call issued after it and before they resolve asks for
  \<open>q1\<close> again (events \<open>evs\<close>), then call \<open>k\<close> resolves to
  \<^verbatim>\<open>{query: '_SEARCH_CANCELED', results: []}\<close> and \<^verbatim>\<open>fuzzySearch\<close> is not
  invoked. A call whose query is the latest recorded query when its fetches
  resolve returns its query with the results of \<^verbatim>\<open>fuzzySearch\<close>, which is
  invoked once.
\<close>

theorem searchTemplates_cancellation:
  "(q2 \<noteq> q1
     \<and> list_all (\<lambda>ev. \<not> resolves (length (issued (search_run e pre search_init))) ev) mid
     \<and> not_reissued q1 (length (issued (search_run e pre search_init))) evs \<longrightarrow>
     (let k = length (issued (search_run e pre search_init));
          s = search_run e (pre @ [Search q1] @ mid @ [Search q2] @ evs) search_init;
          s' = search_step e s (FetchesResolved k ts tgs)
      in map_of (resolved s') k = Some canceled \<and> ranked s' = ranked s))
   \<and> (j < length (issued (search_run e tr search_init))
       \<and> map_of (resolved (search_run e tr search_init)) j = None
       \<and> issued (search_run e tr search_init) ! j = lastSearchQuery (search_run e tr search_init) \<longrightarrow>
     (let s = search_run e tr search_init;
          s' = search_step e s (FetchesResolved j ts tgs)
      in map_of (resolved s') j = Some (ranking e (issued s ! j) ts tgs)
         \<and> ranked s' = ranked s @ [issued s ! j]))"
proof (intro conjI impI)
  let ?pa = "search_run e pre search_init"
  let ?k = "length (issued ?pa)"
  assume a: "q2 \<noteq> q1 \<and> list_all (\<lambda>ev. \<not> resolves ?k ev) mid \<and> not_reissued q1 ?k evs"
  let ?pb = "searchTemplates_call q1 ?pa"
  let ?pc = "search_run e mid ?pb"
  let ?pd = "searchTemplates_call q2 ?pc"
  let ?s = "search_run e evs ?pd"
  have run: "search_run e (pre @ [Search q1] @ mid @ [Search q2] @ evs) search_init = ?s"
    by (simp add: search_run_append search_run_Cons search_run_Nil)
  have ok0: "search_ok ?pa" by (rule search_ok_run [OF search_ok_init])
  have u1: "map_of (resolved ?pb) ?k = None"
    using search_ok_fresh [OF ok0] by (simp add: searchTemplates_call_def)
  have k1: "?k < length (issued ?pb)" and i1: "issued ?pb ! ?k = q1"
    by (simp_all add: searchTemplates_call_def)
  have u2: "map_of (resolved ?pc) ?k = None"
    using a u1 by (simp add: run_unresolved)
  have k2: "?k < length (issued ?pc)" and i2: "issued ?pc ! ?k = q1"
    using run_keeps_issued [OF k1, of e mid] i1 by simp_all
  have u3: "map_of (resolved ?pd) ?k = None" using u2 by (simp add: searchTemplates_call_def)
  have k3: "?k < length (issued ?pd)" and i3: "issued ?pd ! ?k = q1"
    using k2 i2 by (simp_all add: searchTemplates_call_def nth_append)
  have l3: "lastSearchQuery ?pd \<noteq> q1" using a by (simp add: searchTemplates_call_def)
  have q: "not_reissued q1 ?k evs" using a by simp
  have l: "lastSearchQuery ?s \<noteq> q1" and u: "map_of (resolved ?s) ?k = None"
    using run_not_reissued [OF q l3 u3, of e] by simp_all
  have k: "?k < length (issued ?s)" and i: "issued ?s ! ?k = q1"
    using run_keeps_issued [OF k3, of e evs] i3 by simp_all
  show "let k = ?k;
          s = search_run e (pre @ [Search q1] @ mid @ [Search q2] @ evs) search_init;
          s' = search_step e s (FetchesResolved k ts tgs)
      in map_of (resolved s') k = Some canceled \<and> ranked s' = ranked s"
  proof -
    have ne: "issued ?s ! ?k \<noteq> lastSearchQuery ?s" using l by (auto simp: i)
    have "map_of (resolved (search_step e ?s (FetchesResolved ?k ts tgs))) ?k = Some canceled
        \<and> ranked (search_step e ?s (FetchesResolved ?k ts tgs)) = ranked ?s"
      using then_result [OF k u, of e ts tgs] ne by (simp only: if_True simp_thms)
    then show ?thesis unfolding Let_def run .
  qed
next
  let ?s = "search_run e tr search_init"
  assume a: "j < length (issued ?s) \<and> map_of (resolved ?s) j = None
       \<and> issued ?s ! j = lastSearchQuery ?s"
  then have k: "j < length (issued ?s)" and u: "map_of (resolved ?s) j = None" by simp_all
  show "let s = ?s; s' = search_step e s (FetchesResolved j ts tgs)
      in map_of (resolved s') j = Some (ranking e (issued s ! j) ts tgs)
         \<and> ranked s' = ranked s @ [issued s ! j]"
  proof -
    have eq: "\<not> issued ?s ! j \<noteq> lastSearchQuery ?s" using a by simp
    have "map_of (resolved (search_step e ?s (FetchesResolved j ts tgs))) j
            = Some (ranking e (issued ?s ! j) ts tgs)
        \<and> ranked (search_step e ?s (FetchesResolved j ts tgs)) = ranked ?s @ [issued ?s ! j]"
      using then_result [OF k u, of e ts tgs] eq by (simp only: if_False simp_thms)
    then show ?thesis unfolding Let_def .
  qed
qed

theorem searchTemplates_cancellation_witness:
  "(let s = search_run env0 [Search ''a'', Search ''ab'', Search ''abc''] search_init;
        s' = search_step env0 s (FetchesResolved 0 [] [])
    in map_of (resolved s') 0 = Some canceled \<and> ranked s' = ranked s)
   \<and> (let s = search_run env0 [Search ''a'', Search ''ab''] search_init;
          s' = search_step env0 s (FetchesResolved 1 [] [])
      in map_of (resolved s') 1 = Some (ranking env0 ''ab'' [] []) \<and> ranked s' = [''ab''])"
  using searchTemplates_cancellation [where e = env0 and pre = "[]" and mid = "[]"
      and evs = "[Search ''abc'']"
      and ?q1.0 = "''a''" and ?q2.0 = "''ab''" and ts = "[]" and tgs = "[]"
      and tr = "[Search ''a'', Search ''ab'']" and j = 1]
  by (simp add: search_run_def search_init_def searchTemplates_call_def not_reissued_def)

text \<open>
  C6 as stated fails: \<^verbatim>\<open>searchTemplates('a')\<close>, then \<^verbatim>\<open>searchTemplates('ab')\<close>,
  then \<^verbatim>\<open>searchTemplates('a')\<close> again, all before the fetches of the first call
  resolve. The latest recorded query is \<^verbatim>\<open>'a'\<close> again, so the first call is
  not canceled: it resolves with its query and \<^verbatim>\<open>fuzzySearch\<close> is invoked.
\<close>

theorem searchTemplates_reissued_counterexample:
  "(let s = search_run env0 [Search ''a'', Search ''ab'', Search ''a''] search_init;
        s' = search_step env0 s (FetchesResolved 0 [] [])
    in ''ab'' \<noteq> ''a''
       \<and> map_of (resolved s') 0 = Some (ranking env0 ''a'' [] [])
       \<and> map_of (resolved s') 0 \<noteq> Some canceled
       \<and> ranked s = []
       \<and> ranked s' = [''a''])"
  by (simp add: search_run_def search_init_def searchTemplates_call_def searchTemplates_then_def
      ranking_def canceled_def Let_def)



section \<open>getCollection and its in-flight map\<close>

text \<open>
  A call that finds a fetch promise in the map is handed that promise and
  issues nothing; two calls made before either storage read has resolved, with
  the cache empty, issue two queries. Run alone, the events of one call give
  the awaited chain \<^verbatim>\<open>getCollection\<close> of the earlier section.
\<close>

lemma getCollection_call_in_flight:
  "collectionRequestQueue s c = Some f \<Longrightarrow>
     loop_step s (Call c u) = s\<lparr>calls := calls s @ [Follows f]\<rparr>"
  by (simp add: getCollection_call_def)

lemma getCollection_race:
  assumes "collections (storage w) c = None"
  shows "requests (the_world (loop_run [Call c u, Call c u, StorageRead 0, StorageRead 1] (idle w)))
           = requests w @ [getCollectionQuery c u, getCollectionQuery c u]
         \<and> calls (loop_run [Call c u, Call c u, StorageRead 0, StorageRead 1] (idle w))
           = [Follows 0, Follows 1]
         \<and> fetches (loop_run [Call c u, Call c u, StorageRead 0, StorageRead 1] (idle w))
           = [(c, QueryInFlight), (c, QueryInFlight)]"
  using assms
  by (simp add: loop_run_def idle_def getCollection_call_def getCollection_read_def Let_def)

lemma getCollection_as_events:
  "the_world (loop_run [Call c u, StorageRead 0,
       QueryResolved 0 (run_query e (getCollectionQuery c u)), CacheWritten 0, StampWritten 0]
       (idle w)) = snd (getCollection e c u w)
   \<and> call_result (loop_run [Call c u, StorageRead 0,
       QueryResolved 0 (run_query e (getCollectionQuery c u)), CacheWritten 0, StampWritten 0]
       (idle w)) 0 = Some (fst (getCollection e c u w))"
proof (cases "collections (storage w) c")
  case (Some cached)
  then show ?thesis
    by (simp add: loop_run_def idle_def getCollection_call_def getCollection_read_def
        call_result_def getCollection_def)
next
  case None
  show ?thesis
  proof (cases "q_error (run_query e (getCollectionQuery c u))")
    case (Some msg)
    then show ?thesis using None
      by (simp add: loop_run_def idle_def getCollection_call_def getCollection_read_def
          getCollection_resolved_def call_result_def getCollection_def Let_def)
  next
    case no_error: None
    then show ?thesis using None
      by (simp add: loop_run_def idle_def getCollection_call_def getCollection_read_def
          getCollection_resolved_def getCollection_written_def getCollection_stamped_def
          call_result_def getCollection_def refreshLocalData_def updateCache_def Let_def)
  qed
qed

text \<open>
  C1. The in-flight map is written in the callback of the storage read (line
  145), after the test of line 133. Two calls for the same name made before the
  first storage read has resolved both pass the test, both find the cache
  empty, and both issue the remote query: two fetches are in flight, each
  caller follows its own, and when the remote store answers the two queries
  differently the callers receive different mappings.
\<close>

theorem getCollection_two_calls_two_fetches:
  "(let s = loop_run [Call Tags user1, Call Tags user1, StorageRead 0, StorageRead 1] (idle world0)
    in requests (the_world s) = [getCollectionQuery Tags user1, getCollectionQuery Tags user1]
       \<and> calls s = [Follows 0, Follows 1]
       \<and> fetches s = [(Tags, QueryInFlight), (Tags, QueryInFlight)])
   \<and> (let s = loop_run [Call Tags user1, Call Tags user1, StorageRead 0, StorageRead 1,
                        QueryResolved 0 res_a, QueryResolved 1 res_b,
                        CacheWritten 0, StampWritten 0, CacheWritten 1, StampWritten 1]
                 (idle world0)
      in call_result s 0 = Some (Inr [(''g1'', row0\<lparr>row_id := ''g1'', title := ''old''\<rparr>)])
         \<and> call_result s 1 = Some (Inr [(''g1'', row0\<lparr>row_id := ''g1'', title := ''new''\<rparr>)]))"
  by (simp add: loop_run_def idle_def world0_def cleared_storage_def getCollection_call_def
      getCollection_read_def getCollection_resolved_def getCollection_written_def
      getCollection_stamped_def call_result_def updateCache_write_def updateCache_stamp_def
      setExtensionData_def res_a_def res_b_def snapshot_docs_def snapshot_data_def Let_def)

text \<open>
  C7. When the remote query of a fetch resolves with an error, the callback
  clears the in-flight entry of the name and throws the error: every call that
  follows the fetch is rejected with that error, and nothing is stored. A call
  for the same name made afterwards, with the cache still empty, finds no entry
  in the map and issues a new query.
\<close>

theorem getCollection_query_fails:
  assumes "f < length (fetches s)" and "fetches s ! f = (c, QueryInFlight)"
    and "q_error res = Some msg"
  shows "let s1 = loop_step s (QueryResolved f res)
         in collectionRequestQueue s1 c = None
            \<and> fetches s1 ! f = (c, Settled (Inl (RemoteError msg)))
            \<and> the_world s1 = the_world s
            \<and> (\<forall>k < length (calls s). calls s ! k = Follows f \<longrightarrow>
                  call_result s1 k = Some (Inl (RemoteError msg)))
            \<and> (collections (storage (the_world s)) c = None \<longrightarrow>
                 (let s2 = loop_step (loop_step s1 (Call c u)) (StorageRead (length (calls s)))
                  in requests (the_world s2) = requests (the_world s) @ [getCollectionQuery c u]
                     \<and> calls s2 ! length (calls s) = Follows (length (fetches s))
                     \<and> fetches s2 ! length (fetches s) = (c, QueryInFlight)
                     \<and> collectionRequestQueue s2 c = Some (length (fetches s))))"
  using assms
  by (auto simp: getCollection_resolved_def getCollection_call_def getCollection_read_def
      call_result_def Let_def nth_append)

lemma one_fetch_state:
  "fetches one_fetch = [(Tags, QueryInFlight)] \<and> calls one_fetch = [Follows 0]
   \<and> collections (storage (the_world one_fetch)) Tags = None
   \<and> requests (the_world one_fetch) = [getCollectionQuery Tags user1]"
  by (simp add: one_fetch_def loop_run_def idle_def world0_def cleared_storage_def
      getCollection_call_def getCollection_read_def Let_def)

theorem getCollection_query_fails_witness:
  "(let s1 = loop_step one_fetch (QueryResolved 0 res_offline);
        s2 = loop_step (loop_step s1 (Call Tags user1)) (StorageRead 1)
    in collectionRequestQueue s1 Tags = None
       \<and> call_result s1 0 = Some (Inl (RemoteError ''offline''))
       \<and> requests (the_world s2) = [getCollectionQuery Tags user1, getCollectionQuery Tags user1]
       \<and> calls s2 ! 1 = Follows 1
       \<and> collectionRequestQueue s2 Tags = Some 1)"
proof -
  have a: "0 < length (fetches one_fetch)" using one_fetch_state by simp
  have b: "fetches one_fetch ! 0 = (Tags, QueryInFlight)" using one_fetch_state by simp
  have c: "q_error res_offline = Some ''offline''" by (simp add: res_offline_def)
  show ?thesis
    using getCollection_query_fails [OF a b c, of user1] one_fetch_state
    by (simp add: Let_def del: loop_step.simps)
qed

end
